theory Spec2Isabelle
  imports Main "HOL-Library.Char_ord" "HOL-Library.List_Lexorder" "HOL-Library.Product_Lexorder"
begin

section \<open>The inventory client of cli-utils (pkg/inventory/inventory-client.go)\<close>

text \<open>
  The Go code talks to a Kubernetes API server through library helpers. The embedding
  makes the server an explicit value of type \<open>cluster\<close> that every operation takes and
  returns, and it keeps Go's result convention: a function returning \<open>(T, error)\<close>
  returns a pair whose second component is \<open>None\<close> for a nil error.
\<close>

subsection \<open>Data\<close>

datatype error =
    NilLocalInventory   \<comment> \<open>"retrieving cluster inventory object with nil local inventory"\<close>
  | NilApply            \<comment> \<open>"attempting apply a nil inventory object"\<close>
  | NilCreate           \<comment> \<open>"attempting create a nil inventory object"\<close>
  | NilDelete           \<comment> \<open>"attempting delete a nil inventory object"\<close>
  | NilWrapped          \<comment> \<open>the inventory wrapper holds no object\<close>
  | DecodeError string  \<comment> \<open>a malformed entry in an anchor's payload\<close>
  | NotFound
  | AlreadyExists
  | External string     \<comment> \<open>any other error of a collaborator, opaque to this code\<close>

type_synonym GroupKind = string

text \<open>object.ObjMetadata: the identity of a managed resource.\<close>

record ObjMetadata =
  omNamespace :: string
  omName :: string
  omGroupKind :: GroupKind

text \<open>
  The payload of an anchor object is a list of entries, each of which either parses to an
  object reference or is malformed.
\<close>

datatype entry = Entry ObjMetadata | Malformed string

type_synonym payload = "entry list"

text \<open>
  resource.Info, reduced to what this file reads: the namespace and name, the resource type
  of its REST mapping, the labels of the object it holds and the object's payload. A
  \<open>*resource.Info\<close> is an \<open>Info option\<close>, with \<open>None\<close> for nil.
\<close>

record Info =
  Namespace :: string
  Name :: string
  Mapping :: string
  Labels :: "(string \<times> string) list"
  Data :: payload

text \<open>
  The API server. \<open>objects\<close> holds the anchor objects, in the order in which a list
  request returns them; \<open>calls\<close> is the log of every request sent so far, oldest first;
  \<open>fault\<close> says which requests the server rejects (network, permission), and with which
  error.
\<close>

datatype call =
    ListReq string string "string \<times> string"  \<comment> \<open>namespace, resource type, label selector\<close>
  | CreateReq string Info                  \<comment> \<open>resource type, object\<close>
  | ReplaceReq Info
  | DeleteReq string string string          \<comment> \<open>resource type, namespace, name\<close>

record cluster =
  objects :: "Info list"
  calls :: "call list"
  fault :: "call \<Rightarrow> error option"

text \<open>
  ClusterInventoryClient. \<open>mapper\<close> stands for \<open>cic.mapper.RESTMapping\<close>, reduced to the
  resource type of the mapping it returns; \<open>clientFunc\<close> returns a REST client or an error,
  and only the error is observable here. The builder and the validator are part of the
  list request below.
\<close>

record ClusterInventoryClient =
  mapper :: "GroupKind \<Rightarrow> error + string"
  clientFunc :: "string \<Rightarrow> error option"
  dryRun :: bool

subsection \<open>Collaborators outside this file\<close>

text \<open>
  Modelled from the spec: object.Union, object.SetDiff and object.SetEquals
  (pkg/object) are missing from the sources. The spec gives them as set algebra over
  InventorySet: union, difference ("elements of A not in B") and set equality
  ("not ordering"). Sets are slices in the code, so they are lists here, read through
  \<open>set\<close>.
\<close>

definition Union :: "ObjMetadata list \<Rightarrow> ObjMetadata list \<Rightarrow> ObjMetadata list" where
  "Union setA setB = remdups (setA @ setB)"

definition SetDiff :: "ObjMetadata list \<Rightarrow> ObjMetadata list \<Rightarrow> ObjMetadata list" where
  "SetDiff setA setB = remdups (filter (\<lambda>a. a \<notin> set setB) setA)"

definition SetEquals :: "ObjMetadata list \<Rightarrow> ObjMetadata list \<Rightarrow> bool" where
  "SetEquals setA setB = (set setA = set setB)"

text \<open>
  Modelled from the spec: the InventoryRecordCodec (the Load and Store of the wrapper
  in pkg/inventory) is missing from the sources. The spec gives
  \<open>encode(InventorySet) \<rightarrow> payload\<close>, total, and \<open>decode(payload) \<rightarrow> InventorySet | error\<close>,
  which "must fail explicitly (not silently drop entries) on malformed entries".
\<close>

definition encode :: "ObjMetadata list \<Rightarrow> payload" where
  "encode objs = map Entry objs"

fun decode :: "payload \<Rightarrow> error + ObjMetadata list" where
  "decode [] = Inr []"
| "decode (Entry m # es) = (case decode es of Inl e \<Rightarrow> Inl e | Inr ms \<Rightarrow> Inr (m # ms))"
| "decode (Malformed s # es) = Inl (DecodeError s)"

text \<open>
  Modelled from the spec: WrapInventoryObj and the Inventory interface it returns
  (Load, Store, GetObject; pkg/inventory) are missing from the sources. The wrapper
  holds the wrapped object and the set last stored in it; Load decodes the payload of the
  wrapped object, Store records a set, GetObject returns a copy of the wrapped object
  whose payload encodes the recorded set.
\<close>

record wrapper =
  inv :: "Info option"
  objMetas :: "ObjMetadata list"

definition WrapInventoryObj :: "Info option \<Rightarrow> wrapper" where
  "WrapInventoryObj info = \<lparr>inv = info, objMetas = []\<rparr>"

definition Load :: "wrapper \<Rightarrow> ObjMetadata list \<times> error option" where
  "Load w =
     (case inv w of
        None \<Rightarrow> ([], Some NilWrapped)
      | Some i \<Rightarrow> (case decode (Data i) of Inl e \<Rightarrow> ([], Some e) | Inr ms \<Rightarrow> (ms, None)))"

definition Store :: "wrapper \<Rightarrow> ObjMetadata list \<Rightarrow> wrapper \<times> error option" where
  "Store w objs = (w\<lparr>objMetas := objs\<rparr>, None)"

definition GetObject :: "wrapper \<Rightarrow> Info option \<times> error option" where
  "GetObject w =
     (case inv w of
        None \<Rightarrow> (None, Some NilWrapped)
      | Some i \<Rightarrow> (Some (i\<lparr>Data := encode (objMetas w)\<rparr>), None))"

text \<open>
  Modelled from the spec: common.InventoryLabel and retrieveInventoryLabel are missing
  from the sources. The spec says an anchor is "distinguished by owning a specific label
  whose value is the inventory id"; a descriptor without that label is an invalid
  descriptor. The name of the label plays no role in what follows.
\<close>

definition InventoryLabel :: string where
  "InventoryLabel = ''cli-utils.sigs.k8s.io/inventory-id''"

definition retrieveInventoryLabel :: "Info \<Rightarrow> error + string" where
  "retrieveInventoryLabel info =
     (case map_of (Labels info) InventoryLabel of
        None \<Rightarrow> Inl (External ''inventory label does not exist'')
      | Some l \<Rightarrow> Inr l)"

text \<open>
  Modelled from the spec: ordering.SortableInfos is missing from the sources. The spec
  orders the candidates "deterministically (e.g., by namespace then name)".
\<close>

definition sortInfos :: "Info list \<Rightarrow> Info list" where
  "sortInfos invInfos = sort_key (\<lambda>i. (Namespace i, Name i)) invInfos"

text \<open>
  Modelled from the spec: the RemoteStore, "a standard CRUD+label-query object store"
  whose errors are opaque. An object is identified by resource type, namespace and name.
  Every request is logged, also a rejected one.
\<close>

definition key :: "Info \<Rightarrow> string \<times> string \<times> string" where
  "key i = (Mapping i, Namespace i, Name i)"

definition log :: "call \<Rightarrow> cluster \<Rightarrow> cluster" where
  "log x c = c\<lparr>calls := calls c @ [x]\<rparr>"

definition matches :: "string \<Rightarrow> string \<Rightarrow> string \<times> string \<Rightarrow> Info \<Rightarrow> bool" where
  "matches ns res sel obj =
     (Namespace obj = ns \<and> Mapping obj = res \<and> map_of (Labels obj) (fst sel) = Some (snd sel))"

definition store_list ::
  "string \<Rightarrow> string \<Rightarrow> string \<times> string \<Rightarrow> cluster \<Rightarrow> (Info list \<times> error option) \<times> cluster" where
  "store_list ns res sel c =
     (case fault c (ListReq ns res sel) of
        Some e \<Rightarrow> (([], Some e), log (ListReq ns res sel) c)
      | None \<Rightarrow> ((filter (matches ns res sel) (objects c), None), log (ListReq ns res sel) c))"

definition store_create :: "string \<Rightarrow> Info \<Rightarrow> cluster \<Rightarrow> error option \<times> cluster" where
  "store_create res i c =
     (case fault c (CreateReq res i) of
        Some e \<Rightarrow> (Some e, log (CreateReq res i) c)
      | None \<Rightarrow>
          if key (i\<lparr>Mapping := res\<rparr>) \<in> set (map key (objects c))
          then (Some AlreadyExists, log (CreateReq res i) c)
          else (None, log (CreateReq res i) (c\<lparr>objects := objects c @ [i\<lparr>Mapping := res\<rparr>]\<rparr>)))"

definition store_replace :: "Info \<Rightarrow> cluster \<Rightarrow> error option \<times> cluster" where
  "store_replace i c =
     (case fault c (ReplaceReq i) of
        Some e \<Rightarrow> (Some e, log (ReplaceReq i) c)
      | None \<Rightarrow>
          if key i \<in> set (map key (objects c))
          then (None, log (ReplaceReq i)
                  (c\<lparr>objects := map (\<lambda>obj. if key obj = key i then i else obj) (objects c)\<rparr>))
          else (Some NotFound, log (ReplaceReq i) c))"

definition store_delete :: "string \<Rightarrow> string \<Rightarrow> string \<Rightarrow> cluster \<Rightarrow> error option \<times> cluster" where
  "store_delete res ns name c =
     (case fault c (DeleteReq res ns name) of
        Some e \<Rightarrow> (Some e, log (DeleteReq res ns name) c)
      | None \<Rightarrow>
          if (res, ns, name) \<in> set (map key (objects c))
          then (None, log (DeleteReq res ns name)
                  (c\<lparr>objects := filter (\<lambda>obj. key obj \<noteq> (res, ns, name)) (objects c)\<rparr>))
          else (Some NotFound, log (DeleteReq res ns name) c))"

subsection \<open>The write helpers\<close>

text \<open>
  object.InfoToObjMeta (pkg/object) is missing from the sources and the spec does not say
  when it fails, so every function that calls it takes it as its first argument.
\<close>

text \<open>applyInventoryObj, lines 300-317. Refresh with ignoreError set returns nil.\<close>

definition applyInventoryObj ::
  "ClusterInventoryClient \<Rightarrow> Info option \<Rightarrow> cluster \<Rightarrow> error option \<times> cluster" where
  "applyInventoryObj cic info c =
     (if dryRun cic then (None, c)
      else case info of
        None \<Rightarrow> (Some NilApply, c)
      | Some i \<Rightarrow> store_replace i c)"

text \<open>createInventoryObj, lines 320-349.\<close>

definition createInventoryObj ::
  "(Info \<Rightarrow> error + ObjMetadata) \<Rightarrow> ClusterInventoryClient \<Rightarrow> Info option \<Rightarrow> cluster
     \<Rightarrow> error option \<times> cluster" where
  "createInventoryObj InfoToObjMeta cic info c =
     (if dryRun cic then (None, c)
      else case info of
        None \<Rightarrow> (Some NilCreate, c)
      | Some i \<Rightarrow>
          (case InfoToObjMeta i of
             Inl e \<Rightarrow> (Some e, c)
           | Inr obj \<Rightarrow>
               (case mapper cic (omGroupKind obj) of
                  Inl e \<Rightarrow> (Some e, c)
                | Inr mapping \<Rightarrow>
                    (case clientFunc cic mapping of
                       Some e \<Rightarrow> (Some e, c)
                     | None \<Rightarrow> store_create mapping i c))))"

text \<open>DeleteInventoryObj, lines 353-377.\<close>

definition DeleteInventoryObj ::
  "(Info \<Rightarrow> error + ObjMetadata) \<Rightarrow> ClusterInventoryClient \<Rightarrow> Info option \<Rightarrow> cluster
     \<Rightarrow> error option \<times> cluster" where
  "DeleteInventoryObj InfoToObjMeta cic info c =
     (if dryRun cic then (None, c)
      else case info of
        None \<Rightarrow> (Some NilDelete, c)
      | Some i \<Rightarrow>
          (case InfoToObjMeta i of
             Inl e \<Rightarrow> (Some e, c)
           | Inr obj \<Rightarrow>
               (case mapper cic (omGroupKind obj) of
                  Inl e \<Rightarrow> (Some e, c)
                | Inr mapping \<Rightarrow>
                    (case clientFunc cic mapping of
                       Some e \<Rightarrow> (Some e, c)
                     | None \<Rightarrow> store_delete mapping (Namespace i) (Name i) c))))"

subsection \<open>Duplicate resolution and lookup\<close>

text \<open>The first loop of mergeClusterInventory, lines 264-272.\<close>

fun loadOthers :: "ObjMetadata list \<Rightarrow> Info list \<Rightarrow> ObjMetadata list \<times> error option" where
  "loadOthers retainedObjs [] = (retainedObjs, None)"
| "loadOthers retainedObjs (merge # rest) =
     (case Load (WrapInventoryObj (Some merge)) of
        (_, Some e) \<Rightarrow> ([], Some e)
      | (mergeObjs, None) \<Rightarrow> loadOthers (Union retainedObjs mergeObjs) rest)"

text \<open>The second loop of mergeClusterInventory, lines 290-295.\<close>

fun deleteOthers ::
  "(Info \<Rightarrow> error + ObjMetadata) \<Rightarrow> ClusterInventoryClient \<Rightarrow> Info list \<Rightarrow> cluster
     \<Rightarrow> error option \<times> cluster" where
  "deleteOthers InfoToObjMeta cic [] c = (None, c)"
| "deleteOthers InfoToObjMeta cic (merge # rest) c =
     (case DeleteInventoryObj InfoToObjMeta cic (Some merge) c of
        (Some e, c') \<Rightarrow> (Some e, c')
      | (None, c') \<Rightarrow> deleteOthers InfoToObjMeta cic rest c')"

text \<open>mergeClusterInventory, lines 248-297.\<close>

definition mergeClusterInventory ::
  "(Info \<Rightarrow> error + ObjMetadata) \<Rightarrow> ClusterInventoryClient \<Rightarrow> Info list \<Rightarrow> cluster
     \<Rightarrow> (Info option \<times> error option) \<times> cluster" where
  "mergeClusterInventory InfoToObjMeta cic invInfos c =
     (if length invInfos = 0 then ((None, None), c)
      else
        let sorted = sortInfos invInfos;
            retained = hd sorted;
            wrapRetained = WrapInventoryObj (Some retained)
        in case Load wrapRetained of
             (_, Some e) \<Rightarrow> ((None, Some e), c)
           | (retainedObjs, None) \<Rightarrow>
               (case loadOthers retainedObjs (tl sorted) of
                  (_, Some e) \<Rightarrow> ((None, Some e), c)
                | (retainedObjs', None) \<Rightarrow>
                    (case Store wrapRetained retainedObjs' of
                       (_, Some e) \<Rightarrow> ((None, Some e), c)
                     | (wrapRetained', None) \<Rightarrow>
                         (case GetObject wrapRetained' of
                            (_, Some e) \<Rightarrow> ((None, Some e), c)
                          | (retainInfo, None) \<Rightarrow>
                              (case applyInventoryObj cic retainInfo c of
                                 (Some e, c1) \<Rightarrow> ((None, Some e), c1)
                               | (None, c1) \<Rightarrow>
                                   (case deleteOthers InfoToObjMeta cic (tl sorted) c1 of
                                      (Some e, c2) \<Rightarrow> ((None, Some e), c2)
                                    | (None, c2) \<Rightarrow> ((retainInfo, None), c2)))))))"

text \<open>
  getClusterInventoryInfo, lines 194-239. The builder chain is the list request; the
  namespace of the descriptor is passed to it as it is.
\<close>

definition getClusterInventoryInfo ::
  "(Info \<Rightarrow> error + ObjMetadata) \<Rightarrow> ClusterInventoryClient \<Rightarrow> Info option \<Rightarrow> cluster
     \<Rightarrow> (Info option \<times> error option) \<times> cluster" where
  "getClusterInventoryInfo InfoToObjMeta cic localInv c =
     (case localInv of
        None \<Rightarrow> ((None, Some NilLocalInventory), c)
      | Some li \<Rightarrow>
          (case InfoToObjMeta li of
             Inl e \<Rightarrow> ((None, Some e), c)
           | Inr localObj \<Rightarrow>
               (case mapper cic (omGroupKind localObj) of
                  Inl e \<Rightarrow> ((None, Some e), c)
                | Inr groupResource \<Rightarrow>
                    (case retrieveInventoryLabel li of
                       Inl e \<Rightarrow> ((None, Some e), c)
                     | Inr label \<Rightarrow>
                         (case store_list (omNamespace localObj) groupResource
                                 (InventoryLabel, label) c of
                            ((_, Some e), c1) \<Rightarrow> ((None, Some e), c1)
                          | ((retrievedInventoryInfos, None), c1) \<Rightarrow>
                              if length retrievedInventoryInfos = 1
                              then ((Some (hd retrievedInventoryInfos), None), c1)
                              else if length retrievedInventoryInfos > 1
                              then (case mergeClusterInventory InfoToObjMeta cic
                                           retrievedInventoryInfos c1 of
                                      ((_, Some e), c2) \<Rightarrow> ((None, Some e), c2)
                                    | ((clusterInv, None), c2) \<Rightarrow> ((clusterInv, None), c2))
                              else ((None, None), c1))))))"

subsection \<open>The public operations\<close>

text \<open>GetClusterObjs, lines 171-183.\<close>

definition GetClusterObjs ::
  "(Info \<Rightarrow> error + ObjMetadata) \<Rightarrow> ClusterInventoryClient \<Rightarrow> Info option \<Rightarrow> cluster
     \<Rightarrow> (ObjMetadata list \<times> error option) \<times> cluster" where
  "GetClusterObjs InfoToObjMeta cic localInv c =
     (case getClusterInventoryInfo InfoToObjMeta cic localInv c of
        ((_, Some e), c1) \<Rightarrow> (([], Some e), c1)
      | ((None, None), c1) \<Rightarrow> (([], None), c1)
      | ((Some clusterInv, None), c1) \<Rightarrow> (Load (WrapInventoryObj (Some clusterInv)), c1))"

text \<open>
  Merge, lines 83-134. A nil slice returned beside an error is the empty list.
\<close>

definition Merge ::
  "(Info \<Rightarrow> error + ObjMetadata) \<Rightarrow> ClusterInventoryClient \<Rightarrow> Info option \<Rightarrow> ObjMetadata list
     \<Rightarrow> cluster \<Rightarrow> (ObjMetadata list \<times> error option) \<times> cluster" where
  "Merge InfoToObjMeta cic localInv objs c =
     (case getClusterInventoryInfo InfoToObjMeta cic localInv c of
        ((_, Some e), c1) \<Rightarrow> (([], Some e), c1)
      | ((None, None), c1) \<Rightarrow>
          (case Store (WrapInventoryObj localInv) objs of
             (_, Some e) \<Rightarrow> (([], Some e), c1)
           | (inv', None) \<Rightarrow>
               (case GetObject inv' of
                  (_, Some e) \<Rightarrow> (([], Some e), c1)
                | (invInfo, None) \<Rightarrow>
                    (case createInventoryObj InfoToObjMeta cic invInfo c1 of
                       (Some e, c2) \<Rightarrow> (([], Some e), c2)
                     | (None, c2) \<Rightarrow> (([], None), c2))))
      | ((Some clusterInv, None), c1) \<Rightarrow>
          (case GetClusterObjs InfoToObjMeta cic localInv c1 of
             ((_, Some e), c2) \<Rightarrow> (([], Some e), c2)
           | ((clusterObjs, None), c2) \<Rightarrow>
               if SetEquals objs clusterObjs then (([], None), c2)
               else
                 let pruneIds = SetDiff clusterObjs objs;
                     unionObjs = Union clusterObjs objs
                 in (case Store (WrapInventoryObj (Some clusterInv)) unionObjs of
                       (_, Some e) \<Rightarrow> ((pruneIds, Some e), c2)
                     | (wrappedInv, None) \<Rightarrow>
                         (if \<not> dryRun cic then
                            (case GetObject wrappedInv of
                               (_, Some e) \<Rightarrow> ((pruneIds, Some e), c2)
                             | (clusterInv', None) \<Rightarrow>
                                 (case applyInventoryObj cic clusterInv' c2 of
                                    (Some e, c3) \<Rightarrow> ((pruneIds, Some e), c3)
                                  | (None, c3) \<Rightarrow> ((pruneIds, None), c3)))
                          else ((pruneIds, None), c2)))))"

text \<open>Replace, lines 138-167.\<close>

definition Replace ::
  "(Info \<Rightarrow> error + ObjMetadata) \<Rightarrow> ClusterInventoryClient \<Rightarrow> Info option \<Rightarrow> ObjMetadata list
     \<Rightarrow> cluster \<Rightarrow> error option \<times> cluster" where
  "Replace InfoToObjMeta cic localInv objs c =
     (case GetClusterObjs InfoToObjMeta cic localInv c of
        ((_, Some e), c1) \<Rightarrow> (Some e, c1)
      | ((clusterObjs, None), c1) \<Rightarrow>
          if SetEquals objs clusterObjs then (None, c1)
          else
            (case getClusterInventoryInfo InfoToObjMeta cic localInv c1 of
               ((_, Some e), c2) \<Rightarrow> (Some e, c2)
             | ((clusterInv, None), c2) \<Rightarrow>
                 (case Store (WrapInventoryObj clusterInv) objs of
                    (_, Some e) \<Rightarrow> (Some e, c2)
                  | (wrappedInv, None) \<Rightarrow>
                      if \<not> dryRun cic then
                        (case GetObject wrappedInv of
                           (_, Some e) \<Rightarrow> (Some e, c2)
                         | (clusterInv', None) \<Rightarrow> applyInventoryObj cic clusterInv' c2)
                      else (None, c2))))"

text \<open>SetDryRun, lines 381-383.\<close>

definition SetDryRun :: "bool \<Rightarrow> ClusterInventoryClient \<Rightarrow> ClusterInventoryClient" where
  "SetDryRun b cic = cic\<lparr>dryRun := b\<rparr>"

subsection \<open>Observations on a run\<close>

text \<open>A request is a write unless it is a list request.\<close>

fun isWrite :: "call \<Rightarrow> bool" where
  "isWrite (ListReq ns res sel) = False"
| "isWrite (CreateReq res i) = True"
| "isWrite (ReplaceReq i) = True"
| "isWrite (DeleteReq res ns name) = True"

fun isDelete :: "call \<Rightarrow> bool" where
  "isDelete (DeleteReq res ns name) = True"
| "isDelete (ListReq ns res sel) = False"
| "isDelete (CreateReq res i) = False"
| "isDelete (ReplaceReq i) = False"

definition writes :: "cluster \<Rightarrow> call list" where
  "writes c = filter isWrite (calls c)"

text \<open>
  What the list request of getClusterInventoryInfo (lines 195-228) sends and gets back
  for a descriptor: the request and the candidates, or \<open>None\<close> when the lookup returns
  an error before or at the request.
\<close>

definition lookup ::
  "(Info \<Rightarrow> error + ObjMetadata) \<Rightarrow> ClusterInventoryClient \<Rightarrow> Info option \<Rightarrow> cluster
     \<Rightarrow> (call \<times> Info list) option" where
  "lookup InfoToObjMeta cic localInv c =
     (case localInv of
        None \<Rightarrow> None
      | Some li \<Rightarrow>
          (case InfoToObjMeta li of
             Inl e \<Rightarrow> None
           | Inr localObj \<Rightarrow>
               (case mapper cic (omGroupKind localObj) of
                  Inl e \<Rightarrow> None
                | Inr groupResource \<Rightarrow>
                    (case retrieveInventoryLabel li of
                       Inl e \<Rightarrow> None
                     | Inr label \<Rightarrow>
                         (case fault c (ListReq (omNamespace localObj) groupResource
                                          (InventoryLabel, label)) of
                            Some e \<Rightarrow> None
                          | None \<Rightarrow>
                              Some (ListReq (omNamespace localObj) groupResource
                                      (InventoryLabel, label),
                                    filter (matches (omNamespace localObj) groupResource
                                              (InventoryLabel, label)) (objects c)))))))"

definition candidates ::
  "(Info \<Rightarrow> error + ObjMetadata) \<Rightarrow> ClusterInventoryClient \<Rightarrow> Info option \<Rightarrow> cluster
     \<Rightarrow> Info list" where
  "candidates InfoToObjMeta cic localInv c =
     (case lookup InfoToObjMeta cic localInv c of None \<Rightarrow> [] | Some (q, infos) \<Rightarrow> infos)"

text \<open>The set stored in an anchor, empty when its payload does not decode.\<close>

definition stored :: "Info \<Rightarrow> ObjMetadata set" where
  "stored i = set (fst (Load (WrapInventoryObj (Some i))))"

definition loadFails :: "Info \<Rightarrow> bool" where
  "loadFails i = (snd (Load (WrapInventoryObj (Some i))) \<noteq> None)"

text \<open>
  The REST mapping of an object's kind, where there is one, names the resource type the
  object is stored under, so that DeleteInventoryObj addresses the object it is given.
\<close>

definition sameResource ::
  "(Info \<Rightarrow> error + ObjMetadata) \<Rightarrow> ClusterInventoryClient \<Rightarrow> Info \<Rightarrow> bool" where
  "sameResource InfoToObjMeta cic i =
     (case InfoToObjMeta i of
        Inl e \<Rightarrow> True
      | Inr obj \<Rightarrow>
          (case mapper cic (omGroupKind obj) of
             Inl e \<Rightarrow> True
           | Inr mapping \<Rightarrow> mapping = Mapping i))"

text \<open>The candidate that duplicate resolution retains: the first in sorted order.\<close>

definition retainedOf :: "Info list \<Rightarrow> Info" where
  "retainedOf invInfos = hd (sortInfos invInfos)"

text \<open>
  What duplicate resolution computes from the candidates when every load succeeds: the
  union of the stored sets, and the retained candidate carrying it.
\<close>

definition mergedObjs :: "Info list \<Rightarrow> ObjMetadata list" where
  "mergedObjs invInfos =
     fst (loadOthers (fst (Load (WrapInventoryObj (Some (retainedOf invInfos)))))
            (tl (sortInfos invInfos)))"

definition mergedInfo :: "Info list \<Rightarrow> Info" where
  "mergedInfo invInfos = (retainedOf invInfos)\<lparr>Data := encode (mergedObjs invInfos)\<rparr>"

subsection \<open>A small cluster for concrete runs\<close>

definition exObj :: "string \<Rightarrow> ObjMetadata" where
  "exObj n = \<lparr>omNamespace = ''ns'', omName = n, omGroupKind = ''Deployment''\<rparr>"

definition exAnchor :: "string \<Rightarrow> payload \<Rightarrow> Info" where
  "exAnchor n p =
     \<lparr>Namespace = ''ns'', Name = n, Mapping = ''configmaps'',
      Labels = [(InventoryLabel, ''id'')], Data = p\<rparr>"

definition exInfoToObjMeta :: "Info \<Rightarrow> error + ObjMetadata" where
  "exInfoToObjMeta i =
     Inr \<lparr>omNamespace = Namespace i, omName = Name i, omGroupKind = ''ConfigMap''\<rparr>"

definition exMapper :: "GroupKind \<Rightarrow> error + string" where
  "exMapper gk = (if gk = ''ConfigMap'' then Inr ''configmaps'' else Inl (External ''no match''))"

definition exClientFunc :: "string \<Rightarrow> error option" where
  "exClientFunc mapping = None"

definition exClient :: "bool \<Rightarrow> ClusterInventoryClient" where
  "exClient d = \<lparr>mapper = exMapper, clientFunc = exClientFunc, dryRun = d\<rparr>"

definition noFault :: "call \<Rightarrow> error option" where
  "noFault q = None"

definition readOnly :: "call \<Rightarrow> error option" where
  "readOnly q = (if isWrite q then Some (External ''forbidden'') else None)"

definition exCluster :: "Info list \<Rightarrow> (call \<Rightarrow> error option) \<Rightarrow> cluster" where
  "exCluster objs f = \<lparr>objects = objs, calls = [], fault = f\<rparr>"

definition twoAnchors :: "Info list" where
  "twoAnchors = [exAnchor ''y'' (encode [exObj ''b'']), exAnchor ''x'' (encode [exObj ''a''])]"

definition brokenAnchors :: "Info list" where
  "brokenAnchors = [exAnchor ''y'' [Malformed ''zz''], exAnchor ''x'' (encode [exObj ''a''])]"

definition exDesc :: "Info option" where
  "exDesc = Some (exAnchor ''x'' [])"

section \<open>Properties\<close>

subsection \<open>Basic facts\<close>

lemma log_simps:
  "objects (log q c) = objects c" "fault (log q c) = fault c" "calls (log q c) = calls c @ [q]"
  by (simp_all add: log_def)

lemma writes_log: "writes (log q c) = (if isWrite q then writes c @ [q] else writes c)"
  by (simp add: writes_def log_def)

subsection \<open>Nil descriptors\<close>

text \<open>
  C7, as the code has it: GetClusterObjs, Merge and Replace return the nil-descriptor
  error on a nil descriptor in every mode and leave the cluster untouched, without a
  request. DeleteInventoryObj returns its nil error on a nil descriptor when dry-run is
  off; in dry-run it returns success, again without a request.
\<close>

theorem nil_descriptor_errors:
  "GetClusterObjs InfoToObjMeta cic None c = (([], Some NilLocalInventory), c)
   \<and> Merge InfoToObjMeta cic None objs c = (([], Some NilLocalInventory), c)
   \<and> Replace InfoToObjMeta cic None objs c = (Some NilLocalInventory, c)
   \<and> DeleteInventoryObj InfoToObjMeta cic None c =
       (if dryRun cic then (None, c) else (Some NilDelete, c))"
  by (simp add: GetClusterObjs_def Merge_def Replace_def DeleteInventoryObj_def
      getClusterInventoryInfo_def)

text \<open>
  C7 as stated fails: in dry-run, DeleteInventoryObj on a nil descriptor returns no
  error.
\<close>

theorem nil_descriptor_dry_run_delete_succeeds:
  "fst (DeleteInventoryObj exInfoToObjMeta (exClient True) None (exCluster [] noFault)) = None"
  by (simp add: DeleteInventoryObj_def exClient_def)

subsection \<open>Loading\<close>

lemma Load_wrap:
  "Load (WrapInventoryObj (Some i)) =
     (case decode (Data i) of Inl e \<Rightarrow> ([], Some e) | Inr ms \<Rightarrow> (ms, None))"
  by (simp add: Load_def WrapInventoryObj_def)

lemma Load_cases:
  obtains (fails) e where "Load (WrapInventoryObj (Some i)) = ([], Some e)" "loadFails i"
  | (loads) ms where "Load (WrapInventoryObj (Some i)) = (ms, None)" "\<not> loadFails i"
      "stored i = set ms"
  by (cases "decode (Data i)") (auto simp: Load_wrap loadFails_def stored_def)

lemma set_sortInfos: "set (sortInfos xs) = set xs"
  by (simp add: sortInfos_def)

lemma sortInfos_Nil: "sortInfos xs = [] \<longleftrightarrow> xs = []"
  by (metis set_sortInfos set_empty)

lemma loadOthers_fails:
  "find loadFails xs = Some i \<Longrightarrow>
     loadOthers acc xs = ([], snd (Load (WrapInventoryObj (Some i))))"
proof (induction xs arbitrary: acc)
  case Nil
  then show ?case by simp
next
  case (Cons x xs)
  show ?case
  proof (cases x rule: Load_cases)
    case (fails e)
    with Cons.prems show ?thesis by simp
  next
    case (loads ms)
    with Cons show ?thesis by simp
  qed
qed

lemma loadOthers_loads:
  "\<forall>i\<in>set xs. \<not> loadFails i \<Longrightarrow>
     \<exists>U. loadOthers acc xs = (U, None) \<and> set U = set acc \<union> \<Union>(stored ` set xs)"
proof (induction xs arbitrary: acc)
  case Nil
  then show ?case by simp
next
  case (Cons x xs)
  from Cons.prems have "\<not> loadFails x" by simp
  then obtain ms where ms: "Load (WrapInventoryObj (Some x)) = (ms, None)" "stored x = set ms"
    by (cases x rule: Load_cases) auto
  from Cons.prems have "\<forall>i\<in>set xs. \<not> loadFails i" by simp
  from Cons.IH [OF this, of "Union acc ms"] ms show ?case
    by (auto simp: Union_def)
qed

text \<open>Once every candidate has loaded, what is left of mergeClusterInventory.\<close>

lemma mergeClusterInventory_loaded:
  assumes "sortInfos invInfos = x # ms"
    and "Load (WrapInventoryObj (Some x)) = (S, None)"
    and "loadOthers S ms = (U, None)"
  shows "mergeClusterInventory InfoToObjMeta cic invInfos c =
           (case applyInventoryObj cic (Some (x\<lparr>Data := encode U\<rparr>)) c of
              (Some e, c1) \<Rightarrow> ((None, Some e), c1)
            | (None, c1) \<Rightarrow>
                (case deleteOthers InfoToObjMeta cic ms c1 of
                   (Some e, c2) \<Rightarrow> ((None, Some e), c2)
                 | (None, c2) \<Rightarrow> ((Some (x\<lparr>Data := encode U\<rparr>), None), c2)))"
proof -
  from assms(1) sortInfos_Nil [of invInfos] have "invInfos \<noteq> []" by auto
  with assms show ?thesis
    by (simp add: mergeClusterInventory_def Store_def GetObject_def WrapInventoryObj_def
        split: option.splits prod.splits)
qed

lemma ex_sorted:
  "sortInfos [exAnchor ''y'' p, exAnchor ''x'' p'] = [exAnchor ''x'' p', exAnchor ''y'' p]"
  by (simp add: sortInfos_def exAnchor_def)

subsection \<open>Load failures during duplicate resolution\<close>

text \<open>
  C10: when the load of some candidate fails, mergeClusterInventory returns the load error
  of the first candidate, in sorted order, whose load fails, and returns the cluster it
  was given: no request has been sent, no object has changed.
\<close>

theorem load_failure_leaves_cluster:
  assumes "i \<in> set invInfos" and "loadFails i"
  shows "\<exists>j. find loadFails (sortInfos invInfos) = Some j \<and> j \<in> set invInfos \<and> loadFails j
           \<and> mergeClusterInventory InfoToObjMeta cic invInfos c
               = ((None, snd (Load (WrapInventoryObj (Some j)))), c)"
proof -
  from assms have "\<exists>x\<in>set (sortInfos invInfos). loadFails x"
    by (auto simp: set_sortInfos)
  then obtain j where j: "find loadFails (sortInfos invInfos) = Some j"
    by (cases "find loadFails (sortInfos invInfos)") (auto simp: find_None_iff)
  then have jf: "loadFails j" and jin: "j \<in> set invInfos"
    by (auto simp: find_Some_iff set_sortInfos dest: nth_mem)
  from assms obtain r ms where srt: "sortInfos invInfos = r # ms"
    by (cases "sortInfos invInfos") (auto simp: sortInfos_Nil)
  from assms have ne: "length invInfos \<noteq> 0" by auto
  have "mergeClusterInventory InfoToObjMeta cic invInfos c
          = ((None, snd (Load (WrapInventoryObj (Some j)))), c)"
  proof (cases r rule: Load_cases)
    case (fails e)
    with j srt have "j = r" by simp
    with fails ne srt show ?thesis
      by (simp add: mergeClusterInventory_def)
  next
    case (loads S)
    with j srt have "find loadFails ms = Some j" by simp
    from loadOthers_fails [OF this, of S] jf obtain e where
      "loadOthers S ms = ([], Some e)" "snd (Load (WrapInventoryObj (Some j))) = Some e"
      by (auto simp: loadFails_def)
    with loads ne srt show ?thesis
      by (simp add: mergeClusterInventory_def)
  qed
  with j jf jin show ?thesis by blast
qed

theorem load_failure_leaves_cluster_witness:
  "exAnchor ''y'' [Malformed ''zz''] \<in> set brokenAnchors
   \<and> loadFails (exAnchor ''y'' [Malformed ''zz''])
   \<and> mergeClusterInventory exInfoToObjMeta (exClient False) brokenAnchors
        (exCluster brokenAnchors noFault)
      = ((None, Some (DecodeError ''zz'')), exCluster brokenAnchors noFault)"
proof -
  have h1: "exAnchor ''y'' [Malformed ''zz''] \<in> set brokenAnchors"
    by (simp add: brokenAnchors_def)
  have h2: "loadFails (exAnchor ''y'' [Malformed ''zz''])"
    by (simp add: loadFails_def Load_wrap exAnchor_def)
  have ok: "\<not> loadFails (exAnchor ''x'' (encode [exObj ''a'']))"
    by (simp add: loadFails_def Load_wrap exAnchor_def encode_def)
  have ld: "snd (Load (WrapInventoryObj (Some (exAnchor ''y'' [Malformed ''zz''])))) =
      Some (DecodeError ''zz'')"
    by (simp add: Load_wrap exAnchor_def)
  from load_failure_leaves_cluster [OF h1 h2, of exInfoToObjMeta "exClient False"
      "exCluster brokenAnchors noFault"]
  show ?thesis using h1 h2 ok ld by (auto simp: ex_sorted brokenAnchors_def)
qed

subsection \<open>The order of requests in duplicate resolution\<close>

text \<open>A load failure ends the routine before any request.\<close>

lemma load_failure_any:
  assumes "i \<in> set invInfos" and "loadFails i"
  shows "\<exists>e. mergeClusterInventory InfoToObjMeta cic invInfos c = ((None, Some e), c)"
proof -
  from assms obtain r ms where srt: "sortInfos invInfos = r # ms"
    by (cases "sortInfos invInfos") (auto simp: sortInfos_Nil)
  from assms have ne: "length invInfos \<noteq> 0" by auto
  show ?thesis
  proof (cases r rule: Load_cases)
    case (fails e)
    with ne srt show ?thesis by (simp add: mergeClusterInventory_def)
  next
    case (loads S)
    from assms srt loads have "\<exists>x\<in>set ms. loadFails x"
      by (metis set_sortInfos set_ConsD)
    then obtain j where j: "find loadFails ms = Some j"
      by (cases "find loadFails ms") (auto simp: find_None_iff)
    then have "loadFails j" by (auto simp: find_Some_iff)
    with loadOthers_fails [OF j, of S] obtain e where "loadOthers S ms = ([], Some e)"
      by (auto simp: loadFails_def)
    with loads ne srt show ?thesis by (simp add: mergeClusterInventory_def)
  qed
qed

lemma store_replace_calls: "calls (snd (store_replace i c)) = calls c @ [ReplaceReq i]"
  by (simp add: store_replace_def log_simps split: option.splits)

lemma store_replace_accepted:
  "store_replace u c = (None, c1) \<Longrightarrow>
     objects c1 = map (\<lambda>obj. if key obj = key u then u else obj) (objects c)
     \<and> fault c1 = fault c \<and> calls c1 = calls c @ [ReplaceReq u]
     \<and> key u \<in> set (map key (objects c)) \<and> fault c (ReplaceReq u) = None"
  by (auto simp: store_replace_def log_simps split: option.splits if_splits)

lemma store_replace_member:
  "store_replace u c = (None, c1) \<Longrightarrow> u \<in> set (objects c1)"
  by (auto simp: store_replace_def log_simps split: option.splits if_splits)

lemma DeleteInventoryObj_calls:
  "DeleteInventoryObj InfoToObjMeta cic info c = (r, c') \<Longrightarrow>
     calls c' = calls c \<or> (\<not> dryRun cic \<and> (\<exists>q. isDelete q \<and> calls c' = calls c @ [q]))"
  by (auto simp: DeleteInventoryObj_def store_delete_def log_simps
      split: if_splits option.splits sum.splits)

lemma deleteOthers_calls:
  "deleteOthers InfoToObjMeta cic ms c = (r, c') \<Longrightarrow>
     \<exists>ds. calls c' = calls c @ ds \<and> list_all isDelete ds \<and> (dryRun cic \<longrightarrow> ds = [])"
proof (induction ms arbitrary: c)
  case Nil
  then show ?case by simp
next
  case (Cons m ms)
  obtain r1 c1 where d: "DeleteInventoryObj InfoToObjMeta cic (Some m) c = (r1, c1)"
    by (cases "DeleteInventoryObj InfoToObjMeta cic (Some m) c")
  from DeleteInventoryObj_calls [OF d] obtain d1 where
    d1: "calls c1 = calls c @ d1" "list_all isDelete d1" "dryRun cic \<longrightarrow> d1 = []"
    by auto
  show ?case
  proof (cases r1)
    case (Some e)
    with Cons.prems d have "c' = c1" by simp
    with d1 show ?thesis by blast
  next
    case None
    with Cons.prems d have "deleteOthers InfoToObjMeta cic ms c1 = (r, c')" by simp
    from Cons.IH [OF this] obtain d2 where
      "calls c' = calls c1 @ d2" "list_all isDelete d2" "dryRun cic \<longrightarrow> d2 = []"
      by blast
    with d1 have "calls c' = calls c @ (d1 @ d2) \<and> list_all isDelete (d1 @ d2)
        \<and> (dryRun cic \<longrightarrow> d1 @ d2 = [])"
      by simp
    then show ?thesis by blast
  qed
qed

text \<open>
  C4: the requests that a run of mergeClusterInventory adds to the log are such that
  wherever a delete request stands, it is not the first, the first is the replace request
  that writes the union of all candidates' stored sets into the retained candidate, and
  the store accepted that request, so that it holds the written object.
\<close>

theorem write_before_delete:
  assumes run: "mergeClusterInventory InfoToObjMeta cic invInfos c = (r, c')"
  shows "\<exists>new. calls c' = calls c @ new \<and>
           (\<forall>k<length new. isDelete (new ! k) \<longrightarrow>
              0 < k \<and>
              (\<exists>u U. new ! 0 = ReplaceReq u
                 \<and> u = (retainedOf invInfos)\<lparr>Data := encode U\<rparr>
                 \<and> set U = \<Union>(stored ` set invInfos)
                 \<and> fst (store_replace u c) = None
                 \<and> u \<in> set (objects (snd (store_replace u c)))))"
proof -
  have quiet: ?thesis if "calls c' = calls c"
  proof -
    from that have "calls c' = calls c @ []" by simp
    then show ?thesis by (metis length_0_conv less_nat_zero_code list.size(3))
  qed
  show ?thesis
  proof (cases "invInfos = []")
    case True
    with run have "c' = c" by (simp add: mergeClusterInventory_def)
    then show ?thesis using quiet by simp
  next
    case False
    then obtain x ms where srt: "sortInfos invInfos = x # ms"
      by (cases "sortInfos invInfos") (auto simp: sortInfos_Nil)
    then have ret: "retainedOf invInfos = x" by (simp add: retainedOf_def)
    from srt have sets: "set invInfos = insert x (set ms)"
      by (metis set_sortInfos list.simps(15))
    show ?thesis
    proof (cases "\<exists>i\<in>set invInfos. loadFails i")
      case True
      then obtain i where "i \<in> set invInfos" "loadFails i" by blast
      from load_failure_any [OF this, of InfoToObjMeta cic c] run have "c' = c" by auto
      then show ?thesis using quiet by simp
    next
      case noFail: False
      with sets obtain S where S: "Load (WrapInventoryObj (Some x)) = (S, None)"
        "stored x = set S"
        by (cases x rule: Load_cases) auto
      from noFail sets have "\<forall>i\<in>set ms. \<not> loadFails i" by simp
      from loadOthers_loads [OF this, of S] obtain U where
        U: "loadOthers S ms = (U, None)" "set U = set S \<union> \<Union>(stored ` set ms)"
        by blast
      with S sets have setU: "set U = \<Union>(stored ` set invInfos)" by auto
      define u where "u = x\<lparr>Data := encode U\<rparr>"
      obtain r1 c1 where ap: "applyInventoryObj cic (Some u) c = (r1, c1)"
        by (cases "applyInventoryObj cic (Some u) c")
      obtain r2 c2 where del: "deleteOthers InfoToObjMeta cic ms c1 = (r2, c2)"
        by (cases "deleteOthers InfoToObjMeta cic ms c1")
      from deleteOthers_calls [OF del] obtain ds where
        ds: "calls c2 = calls c1 @ ds" "dryRun cic \<longrightarrow> ds = []"
        by blast
      from run ap del have final: "c' = (if r1 = None then c2 else c1)"
        unfolding mergeClusterInventory_loaded [OF srt S(1) U(1)] u_def [symmetric]
        by (auto split: option.splits)
      show ?thesis
      proof (cases "dryRun cic")
        case True
        with ap have "c1 = c" "r1 = None" by (auto simp: applyInventoryObj_def)
        with final ds True have "calls c' = calls c" by simp
        then show ?thesis by (rule quiet)
      next
        case live: False
        with ap have sr: "store_replace u c = (r1, c1)" by (simp add: applyInventoryObj_def)
        then have c1calls: "calls c1 = calls c @ [ReplaceReq u]"
          using store_replace_calls [of u c] by simp
        show ?thesis
        proof (cases r1)
          case (Some e)
          with final c1calls have "calls c' = calls c @ [ReplaceReq u]" by simp
          moreover have "\<forall>k<length [ReplaceReq u]. \<not> isDelete ([ReplaceReq u] ! k)" by simp
          ultimately show ?thesis by blast
        next
          case None
          with final ds c1calls have new: "calls c' = calls c @ (ReplaceReq u # ds)" by simp
          from sr None have acc: "fst (store_replace u c) = None"
            "u \<in> set (objects (snd (store_replace u c)))"
            using store_replace_member [of u c c1] by simp_all
          have first: "(ReplaceReq u # ds) ! 0 = ReplaceReq u
                 \<and> u = (retainedOf invInfos)\<lparr>Data := encode U\<rparr>
                 \<and> set U = \<Union>(stored ` set invInfos)
                 \<and> fst (store_replace u c) = None
                 \<and> u \<in> set (objects (snd (store_replace u c)))"
            using acc setU ret by (simp add: u_def)
          have "\<forall>k<length (ReplaceReq u # ds). isDelete ((ReplaceReq u # ds) ! k) \<longrightarrow>
              0 < k \<and>
              (\<exists>u' U'. (ReplaceReq u # ds) ! 0 = ReplaceReq u'
                 \<and> u' = (retainedOf invInfos)\<lparr>Data := encode U'\<rparr>
                 \<and> set U' = \<Union>(stored ` set invInfos)
                 \<and> fst (store_replace u' c) = None
                 \<and> u' \<in> set (objects (snd (store_replace u' c))))"
          proof (intro allI impI conjI)
            fix k
            assume "isDelete ((ReplaceReq u # ds) ! k)"
            then show "0 < k" by (cases k) auto
          next
            from first show "\<exists>u' U'. (ReplaceReq u # ds) ! 0 = ReplaceReq u'
                 \<and> u' = (retainedOf invInfos)\<lparr>Data := encode U'\<rparr>
                 \<and> set U' = \<Union>(stored ` set invInfos)
                 \<and> fst (store_replace u' c) = None
                 \<and> u' \<in> set (objects (snd (store_replace u' c)))"
              by blast
          qed
          with new show ?thesis by blast
        qed
      qed
    qed
  qed
qed

theorem write_before_delete_witness:
  "calls (snd (mergeClusterInventory exInfoToObjMeta (exClient False) twoAnchors
                 (exCluster twoAnchors noFault)))
     = [ReplaceReq (exAnchor ''x'' (encode [exObj ''a'', exObj ''b''])),
        DeleteReq ''configmaps'' ''ns'' ''y'']
   \<and> (\<exists>new. calls (snd (mergeClusterInventory exInfoToObjMeta (exClient False) twoAnchors
                           (exCluster twoAnchors noFault)))
               = calls (exCluster twoAnchors noFault) @ new \<and>
           (\<forall>k<length new. isDelete (new ! k) \<longrightarrow>
              0 < k \<and>
              (\<exists>u U. new ! 0 = ReplaceReq u
                 \<and> u = (retainedOf twoAnchors)\<lparr>Data := encode U\<rparr>
                 \<and> set U = \<Union>(stored ` set twoAnchors)
                 \<and> fst (store_replace u (exCluster twoAnchors noFault)) = None
                 \<and> u \<in> set (objects (snd (store_replace u (exCluster twoAnchors noFault)))))))"
proof -
  have run: "calls (snd (mergeClusterInventory exInfoToObjMeta (exClient False) twoAnchors
                 (exCluster twoAnchors noFault)))
     = [ReplaceReq (exAnchor ''x'' (encode [exObj ''a'', exObj ''b''])),
        DeleteReq ''configmaps'' ''ns'' ''y'']"
    by code_simp
  have "mergeClusterInventory exInfoToObjMeta (exClient False) twoAnchors
          (exCluster twoAnchors noFault)
        = (fst (mergeClusterInventory exInfoToObjMeta (exClient False) twoAnchors
                  (exCluster twoAnchors noFault)),
           snd (mergeClusterInventory exInfoToObjMeta (exClient False) twoAnchors
                  (exCluster twoAnchors noFault)))"
    by simp
  from write_before_delete [OF this] run show ?thesis by blast
qed

subsection \<open>Lookup\<close>

lemma lookup_cong:
  "objects c' = objects c \<Longrightarrow> fault c' = fault c \<Longrightarrow>
     lookup InfoToObjMeta cic localInv c' = lookup InfoToObjMeta cic localInv c"
  by (simp add: lookup_def split: option.splits sum.splits)

lemma lookup_log [simp]:
  "lookup InfoToObjMeta cic localInv (log q c) = lookup InfoToObjMeta cic localInv c"
  by (rule lookup_cong) (simp_all add: log_simps)

lemma lookup_read: "lookup InfoToObjMeta cic localInv c = Some (q, infos) \<Longrightarrow> \<not> isWrite q"
  by (auto simp: lookup_def split: option.splits sum.splits)

lemma getClusterInventoryInfo_failed:
  assumes "lookup InfoToObjMeta cic localInv c = None"
  shows "\<exists>e c1. getClusterInventoryInfo InfoToObjMeta cic localInv c = ((None, Some e), c1)
           \<and> objects c1 = objects c \<and> fault c1 = fault c \<and> writes c1 = writes c"
proof -
  from assms consider
    (nil) "localInv = None"
  | (meta) li e where "localInv = Some li" "InfoToObjMeta li = Inl e"
  | (mapping) li localObj e where "localInv = Some li" "InfoToObjMeta li = Inr localObj"
      "mapper cic (omGroupKind localObj) = Inl e"
  | (label) li localObj groupResource e where "localInv = Some li"
      "InfoToObjMeta li = Inr localObj" "mapper cic (omGroupKind localObj) = Inr groupResource"
      "retrieveInventoryLabel li = Inl e"
  | (rejected) li localObj groupResource label e where "localInv = Some li"
      "InfoToObjMeta li = Inr localObj" "mapper cic (omGroupKind localObj) = Inr groupResource"
      "retrieveInventoryLabel li = Inr label"
      "fault c (ListReq (omNamespace localObj) groupResource (InventoryLabel, label)) = Some e"
    by (auto simp: lookup_def split: option.splits sum.splits)
  then show ?thesis
  proof cases
    case nil
    then show ?thesis by (simp add: getClusterInventoryInfo_def)
  next
    case meta
    then show ?thesis by (simp add: getClusterInventoryInfo_def)
  next
    case mapping
    then show ?thesis by (simp add: getClusterInventoryInfo_def)
  next
    case label
    then show ?thesis by (simp add: getClusterInventoryInfo_def)
  next
    case rejected
    then show ?thesis
      by (simp add: getClusterInventoryInfo_def store_list_def log_simps writes_log)
  qed
qed

lemma lookupE:
  assumes "lookup InfoToObjMeta cic localInv c = Some (q, infos)"
  obtains li localObj groupResource label where
    "localInv = Some li" "InfoToObjMeta li = Inr localObj"
    "mapper cic (omGroupKind localObj) = Inr groupResource"
    "retrieveInventoryLabel li = Inr label"
    "q = ListReq (omNamespace localObj) groupResource (InventoryLabel, label)"
    "fault c q = None"
    "infos = filter (matches (omNamespace localObj) groupResource (InventoryLabel, label))
               (objects c)"
  using assms by (auto simp: lookup_def split: option.splits sum.splits)

lemma getClusterInventoryInfo_found:
  assumes "lookup InfoToObjMeta cic localInv c = Some (q, infos)"
  shows "getClusterInventoryInfo InfoToObjMeta cic localInv c =
           (if length infos = 1 then ((Some (hd infos), None), log q c)
            else if length infos > 1
            then (case mergeClusterInventory InfoToObjMeta cic infos (log q c) of
                    ((_, Some e), c2) \<Rightarrow> ((None, Some e), c2)
                  | ((clusterInv, None), c2) \<Rightarrow> ((clusterInv, None), c2))
            else ((None, None), log q c))"
proof -
  from assms obtain li localObj groupResource label where
    "localInv = Some li" "InfoToObjMeta li = Inr localObj"
    "mapper cic (omGroupKind localObj) = Inr groupResource"
    "retrieveInventoryLabel li = Inr label"
    "q = ListReq (omNamespace localObj) groupResource (InventoryLabel, label)"
    "fault c q = None"
    "infos = filter (matches (omNamespace localObj) groupResource (InventoryLabel, label))
               (objects c)"
    by (rule lookupE)
  then show ?thesis
    by (simp add: getClusterInventoryInfo_def store_list_def)
qed

subsection \<open>Dry-run\<close>

lemma deleteOthers_dry:
  "dryRun cic \<Longrightarrow> deleteOthers InfoToObjMeta cic ms c = (None, c)"
  by (induction ms) (simp_all add: DeleteInventoryObj_def)

lemma mergeClusterInventory_dry:
  assumes "dryRun cic"
  shows "snd (mergeClusterInventory InfoToObjMeta cic invInfos c) = c"
proof (cases "invInfos = []")
  case True
  then show ?thesis by (simp add: mergeClusterInventory_def)
next
  case False
  then obtain x ms where srt: "sortInfos invInfos = x # ms"
    by (cases "sortInfos invInfos") (auto simp: sortInfos_Nil)
  show ?thesis
  proof (cases "\<exists>i\<in>set invInfos. loadFails i")
    case True
    then obtain i where "i \<in> set invInfos" "loadFails i" by blast
    from load_failure_any [OF this, of InfoToObjMeta cic c] show ?thesis by auto
  next
    case noFail: False
    from srt have sets: "set invInfos = insert x (set ms)"
      by (metis set_sortInfos list.simps(15))
    with noFail obtain S where S: "Load (WrapInventoryObj (Some x)) = (S, None)"
      by (cases x rule: Load_cases) auto
    from noFail sets have "\<forall>i\<in>set ms. \<not> loadFails i" by simp
    from loadOthers_loads [OF this, of S] obtain U where U: "loadOthers S ms = (U, None)"
      by blast
    from assms show ?thesis
      by (simp add: mergeClusterInventory_loaded [OF srt S U] applyInventoryObj_def
          deleteOthers_dry)
  qed
qed

subsection \<open>Reading the stored set\<close>

text \<open>
  C8, as the code has it: when the lookup finds at most one candidate, or in dry-run,
  GetClusterObjs changes no object and sends no write request; it returns the empty set
  when the lookup finds no candidate and the stored set of the candidate when it finds
  one. With more than one candidate and dry-run off it runs duplicate resolution, which
  writes.
\<close>

theorem GetClusterObjs_reads:
  assumes "dryRun cic \<or> length (candidates InfoToObjMeta cic localInv c) \<le> 1"
  shows "objects (snd (GetClusterObjs InfoToObjMeta cic localInv c)) = objects c
       \<and> writes (snd (GetClusterObjs InfoToObjMeta cic localInv c)) = writes c
       \<and> (\<forall>q. lookup InfoToObjMeta cic localInv c = Some (q, []) \<longrightarrow>
             fst (GetClusterObjs InfoToObjMeta cic localInv c) = ([], None))
       \<and> (\<forall>q a. lookup InfoToObjMeta cic localInv c = Some (q, [a]) \<longrightarrow>
             fst (GetClusterObjs InfoToObjMeta cic localInv c)
               = Load (WrapInventoryObj (Some a)))"
proof (cases "lookup InfoToObjMeta cic localInv c")
  case None
  from getClusterInventoryInfo_failed [OF this] None show ?thesis
    by (auto simp: GetClusterObjs_def)
next
  case (Some p)
  obtain q infos where p: "p = (q, infos)" by (cases p)
  with Some have lk: "lookup InfoToObjMeta cic localInv c = Some (q, infos)" by simp
  note found = getClusterInventoryInfo_found [OF lk]
  from lookup_read [OF lk] have rd: "\<not> isWrite q" .
  consider (none) "infos = []" | (one) a where "infos = [a]" | (many) "length infos > 1"
    by (cases infos rule: list.exhaust; cases "tl infos") auto
  then show ?thesis
  proof cases
    case none
    with found lk rd show ?thesis
      by (simp add: GetClusterObjs_def log_simps writes_log)
  next
    case one
    with found lk rd show ?thesis
      by (simp add: GetClusterObjs_def log_simps writes_log)
  next
    case many
    with assms lk have dry: "dryRun cic" by (simp add: candidates_def)
    obtain r c2 where m: "mergeClusterInventory InfoToObjMeta cic infos (log q c) = (r, c2)"
      by (cases "mergeClusterInventory InfoToObjMeta cic infos (log q c)")
    with mergeClusterInventory_dry [OF dry, of InfoToObjMeta infos "log q c"]
    have c2: "c2 = log q c" by simp
    from many found m have "snd (getClusterInventoryInfo InfoToObjMeta cic localInv c) = c2"
      by (auto split: prod.splits option.splits)
    then have "snd (GetClusterObjs InfoToObjMeta cic localInv c) = c2"
      by (auto simp: GetClusterObjs_def split: prod.splits option.splits)
    with c2 rd many lk show ?thesis
      by (auto simp: log_simps writes_log)
  qed
qed

theorem GetClusterObjs_reads_witness:
  "(dryRun (exClient False)
      \<or> length (candidates exInfoToObjMeta (exClient False) exDesc
                  (exCluster [exAnchor ''x'' (encode [exObj ''a''])] noFault)) \<le> 1)
   \<and> lookup exInfoToObjMeta (exClient False) exDesc
        (exCluster [exAnchor ''x'' (encode [exObj ''a''])] noFault)
       = Some (ListReq ''ns'' ''configmaps'' (InventoryLabel, ''id''),
               [exAnchor ''x'' (encode [exObj ''a''])])
   \<and> fst (GetClusterObjs exInfoToObjMeta (exClient False) exDesc
        (exCluster [exAnchor ''x'' (encode [exObj ''a''])] noFault)) = ([exObj ''a''], None)
   \<and> objects (snd (GetClusterObjs exInfoToObjMeta (exClient False) exDesc
        (exCluster [exAnchor ''x'' (encode [exObj ''a''])] noFault)))
       = [exAnchor ''x'' (encode [exObj ''a''])]
   \<and> writes (snd (GetClusterObjs exInfoToObjMeta (exClient False) exDesc
        (exCluster [exAnchor ''x'' (encode [exObj ''a''])] noFault))) = []"
proof -
  have lk: "lookup exInfoToObjMeta (exClient False) exDesc
        (exCluster [exAnchor ''x'' (encode [exObj ''a''])] noFault)
       = Some (ListReq ''ns'' ''configmaps'' (InventoryLabel, ''id''),
               [exAnchor ''x'' (encode [exObj ''a''])])"
    by code_simp
  then have h: "dryRun (exClient False)
      \<or> length (candidates exInfoToObjMeta (exClient False) exDesc
                  (exCluster [exAnchor ''x'' (encode [exObj ''a''])] noFault)) \<le> 1"
    by (simp add: candidates_def)
  have ld: "Load (WrapInventoryObj (Some (exAnchor ''x'' (encode [exObj ''a''])))) =
      ([exObj ''a''], None)"
    by code_simp
  have st: "objects (exCluster [exAnchor ''x'' (encode [exObj ''a''])] noFault)
       = [exAnchor ''x'' (encode [exObj ''a''])]"
     "writes (exCluster [exAnchor ''x'' (encode [exObj ''a''])] noFault) = []"
    by (simp_all add: exCluster_def writes_def)
  from GetClusterObjs_reads [OF h] lk ld st h show ?thesis
    by simp
qed

text \<open>
  C8 as stated fails: with two anchors in the cluster and dry-run off, GetClusterObjs
  replaces one and deletes the other.
\<close>

theorem GetClusterObjs_writes_on_duplicates:
  "writes (snd (GetClusterObjs exInfoToObjMeta (exClient False) exDesc
                  (exCluster twoAnchors noFault)))
     = [ReplaceReq (exAnchor ''x'' (encode [exObj ''a'', exObj ''b''])),
        DeleteReq ''configmaps'' ''ns'' ''y'']
   \<and> objects (snd (GetClusterObjs exInfoToObjMeta (exClient False) exDesc
                  (exCluster twoAnchors noFault)))
     = [exAnchor ''x'' (encode [exObj ''a'', exObj ''b''])]"
proof
  show "writes (snd (GetClusterObjs exInfoToObjMeta (exClient False) exDesc
                  (exCluster twoAnchors noFault)))
     = [ReplaceReq (exAnchor ''x'' (encode [exObj ''a'', exObj ''b''])),
        DeleteReq ''configmaps'' ''ns'' ''y'']"
    by code_simp
  show "objects (snd (GetClusterObjs exInfoToObjMeta (exClient False) exDesc
                  (exCluster twoAnchors noFault)))
     = [exAnchor ''x'' (encode [exObj ''a'', exObj ''b''])]"
    by code_simp
qed

subsection \<open>Merge on a single anchor\<close>

lemma decode_encode: "decode (encode U) = Inr U"
  by (induction U) (simp_all add: encode_def)

lemma Load_written: "Load (WrapInventoryObj (Some (a\<lparr>Data := encode U\<rparr>))) = (U, None)"
  by (simp add: Load_wrap decode_encode)

lemma set_Union: "set (Union A B) = set A \<union> set B"
  by (simp add: Union_def)

lemma set_SetDiff: "set (SetDiff A B) = set A - set B"
  by (auto simp: SetDiff_def)

lemma key_written: "key (a\<lparr>Data := p\<rparr>) = key a"
  by (simp add: key_def)

lemma matches_written: "matches ns res sel (a\<lparr>Data := p\<rparr>) = matches ns res sel a"
  by (simp add: matches_def)

lemma candidate_in_store:
  assumes "lookup InfoToObjMeta cic localInv c = Some (q, infos)" and "a \<in> set infos"
  shows "a \<in> set (objects c)"
  using assms by (auto elim!: lookupE)

text \<open>Merge when the lookup finds exactly one anchor: two list requests, then the branch.\<close>

lemma Merge_single:
  assumes lk: "lookup InfoToObjMeta cic localInv c = Some (q, [a])"
    and ld: "Load (WrapInventoryObj (Some a)) = (S, None)"
  shows "Merge InfoToObjMeta cic localInv D c =
           (if SetEquals D S then (([], None), log q (log q c))
            else if dryRun cic then ((SetDiff S D, None), log q (log q c))
            else (case store_replace (a\<lparr>Data := encode (Union S D)\<rparr>) (log q (log q c)) of
                    (Some e, c3) \<Rightarrow> ((SetDiff S D, Some e), c3)
                  | (None, c3) \<Rightarrow> ((SetDiff S D, None), c3)))"
proof -
  from lk have lk': "lookup InfoToObjMeta cic localInv (log q c) = Some (q, [a])" by simp
  have g1: "getClusterInventoryInfo InfoToObjMeta cic localInv c = ((Some a, None), log q c)"
    using getClusterInventoryInfo_found [OF lk] by simp
  have g2: "getClusterInventoryInfo InfoToObjMeta cic localInv (log q c)
              = ((Some a, None), log q (log q c))"
    using getClusterInventoryInfo_found [OF lk'] by simp
  have g3: "GetClusterObjs InfoToObjMeta cic localInv (log q c) = ((S, None), log q (log q c))"
    by (simp add: GetClusterObjs_def g2 ld)
  show ?thesis
    by (simp add: Merge_def g1 g3 Store_def GetObject_def WrapInventoryObj_def
        applyInventoryObj_def Let_def split: option.splits prod.splits)
qed

lemma store_replace_unfold:
  assumes "a \<in> set (objects c)" and "fault c (ReplaceReq (a\<lparr>Data := p\<rparr>)) = None"
  shows "store_replace (a\<lparr>Data := p\<rparr>) c
           = (None, log (ReplaceReq (a\<lparr>Data := p\<rparr>))
                (c\<lparr>objects := map (\<lambda>obj. if key obj = key a then a\<lparr>Data := p\<rparr> else obj)
                                  (objects c)\<rparr>))"
  using assms by (auto simp: store_replace_def key_written)

lemma replaced_member:
  "a \<in> set xs \<Longrightarrow> u \<in> set (map (\<lambda>obj. if key obj = key a then u else obj) xs)"
  by (induction xs) auto

text \<open>
  C1: when the lookup finds one anchor, its payload decodes to S and the desired set D is
  not set-equal to S, Merge returns the prune candidates \<open>SetDiff S D\<close>, that is S without
  D, in every mode and whatever the store answers. With dry-run off and the replace request
  accepted, it returns no error and the anchor in the store is replaced by a copy whose
  payload decodes to \<open>Union S D\<close>.
\<close>

theorem Merge_prunes_difference_stores_union:
  assumes lk: "lookup InfoToObjMeta cic localInv c = Some (q, [a])"
    and ld: "Load (WrapInventoryObj (Some a)) = (S, None)"
    and ne: "set D \<noteq> set S"
  shows "fst (fst (Merge InfoToObjMeta cic localInv D c)) = SetDiff S D
       \<and> set (SetDiff S D) = set S - set D
       \<and> (\<not> dryRun cic \<and> fault c (ReplaceReq (a\<lparr>Data := encode (Union S D)\<rparr>)) = None \<longrightarrow>
            snd (fst (Merge InfoToObjMeta cic localInv D c)) = None
            \<and> objects (snd (Merge InfoToObjMeta cic localInv D c))
                = map (\<lambda>obj. if key obj = key a then a\<lparr>Data := encode (Union S D)\<rparr> else obj)
                    (objects c)
            \<and> a\<lparr>Data := encode (Union S D)\<rparr>
                \<in> set (objects (snd (Merge InfoToObjMeta cic localInv D c)))
            \<and> Load (WrapInventoryObj (Some (a\<lparr>Data := encode (Union S D)\<rparr>)))
                = (Union S D, None)
            \<and> set (Union S D) = set S \<union> set D)"
proof -
  note m = Merge_single [OF lk ld, of D]
  from ne have neq: "\<not> SetEquals D S" by (simp add: SetEquals_def)
  have prune: "fst (fst (Merge InfoToObjMeta cic localInv D c)) = SetDiff S D"
    using neq by (simp add: m split: prod.splits option.splits)
  have live: "snd (fst (Merge InfoToObjMeta cic localInv D c)) = None
            \<and> objects (snd (Merge InfoToObjMeta cic localInv D c))
                = map (\<lambda>obj. if key obj = key a then a\<lparr>Data := encode (Union S D)\<rparr> else obj)
                    (objects c)
            \<and> a\<lparr>Data := encode (Union S D)\<rparr>
                \<in> set (objects (snd (Merge InfoToObjMeta cic localInv D c)))"
    if "\<not> dryRun cic" "fault c (ReplaceReq (a\<lparr>Data := encode (Union S D)\<rparr>)) = None"
  proof -
    from candidate_in_store [OF lk] have ain: "a \<in> set (objects (log q (log q c)))"
      by (simp add: log_simps)
    from that have "fault (log q (log q c)) (ReplaceReq (a\<lparr>Data := encode (Union S D)\<rparr>)) = None"
      by (simp add: log_simps)
    from store_replace_unfold [OF ain this] that neq ain show ?thesis
      by (simp add: m log_simps replaced_member)
  qed
  from prune live set_SetDiff [of S D] set_Union [of S D] Load_written [of "Union S D" a]
  show ?thesis by blast
qed

theorem Merge_prunes_difference_stores_union_witness:
  "lookup exInfoToObjMeta (exClient False) exDesc
       (exCluster [exAnchor ''x'' (encode [exObj ''a'', exObj ''b'', exObj ''c''])] noFault)
     = Some (ListReq ''ns'' ''configmaps'' (InventoryLabel, ''id''),
             [exAnchor ''x'' (encode [exObj ''a'', exObj ''b'', exObj ''c''])])
   \<and> Load (WrapInventoryObj (Some (exAnchor ''x'' (encode [exObj ''a'', exObj ''b'', exObj ''c'']))))
     = ([exObj ''a'', exObj ''b'', exObj ''c''], None)
   \<and> set [exObj ''b'', exObj ''c'', exObj ''d''] \<noteq> set [exObj ''a'', exObj ''b'', exObj ''c'']
   \<and> fst (Merge exInfoToObjMeta (exClient False) exDesc [exObj ''b'', exObj ''c'', exObj ''d'']
        (exCluster [exAnchor ''x'' (encode [exObj ''a'', exObj ''b'', exObj ''c''])] noFault))
       = ([exObj ''a''], None)
   \<and> objects (snd (Merge exInfoToObjMeta (exClient False) exDesc
        [exObj ''b'', exObj ''c'', exObj ''d'']
        (exCluster [exAnchor ''x'' (encode [exObj ''a'', exObj ''b'', exObj ''c''])] noFault)))
       = [exAnchor ''x'' (encode [exObj ''a'', exObj ''b'', exObj ''c'', exObj ''d''])]"
proof -
  let ?S = "[exObj ''a'', exObj ''b'', exObj ''c'']"
  let ?D = "[exObj ''b'', exObj ''c'', exObj ''d'']"
  let ?c = "exCluster [exAnchor ''x'' (encode ?S)] noFault"
  have lk: "lookup exInfoToObjMeta (exClient False) exDesc ?c
     = Some (ListReq ''ns'' ''configmaps'' (InventoryLabel, ''id''), [exAnchor ''x'' (encode ?S)])"
    by code_simp
  have ld: "Load (WrapInventoryObj (Some (exAnchor ''x'' (encode ?S)))) = (?S, None)"
    by code_simp
  have ne: "set ?D \<noteq> set ?S"
    by code_simp
  have live: "\<not> dryRun (exClient False)"
    "fault ?c (ReplaceReq ((exAnchor ''x'' (encode ?S))\<lparr>Data := encode (Union ?S ?D)\<rparr>)) = None"
    by (simp_all add: exClient_def exCluster_def noFault_def)
  have diff: "SetDiff ?S ?D = [exObj ''a'']"
    by code_simp
  have new: "map (\<lambda>obj. if key obj = key (exAnchor ''x'' (encode ?S))
                  then (exAnchor ''x'' (encode ?S))\<lparr>Data := encode (Union ?S ?D)\<rparr> else obj)
               (objects ?c)
             = [exAnchor ''x'' (encode [exObj ''a'', exObj ''b'', exObj ''c'', exObj ''d''])]"
    by code_simp
  from Merge_prunes_difference_stores_union [OF lk ld ne] live diff new
  have "fst (Merge exInfoToObjMeta (exClient False) exDesc ?D ?c) = ([exObj ''a''], None)"
    and "objects (snd (Merge exInfoToObjMeta (exClient False) exDesc ?D ?c))
       = [exAnchor ''x'' (encode [exObj ''a'', exObj ''b'', exObj ''c'', exObj ''d''])]"
    by (simp_all add: prod_eq_iff)
  with lk ld ne show ?thesis by blast
qed

subsection \<open>Merge without an anchor\<close>

lemma Merge_none:
  assumes "lookup InfoToObjMeta cic (Some li) c = Some (q, [])"
  shows "Merge InfoToObjMeta cic (Some li) D c =
           (case createInventoryObj InfoToObjMeta cic (Some (li\<lparr>Data := encode D\<rparr>)) (log q c) of
              (Some e, c2) \<Rightarrow> (([], Some e), c2)
            | (None, c2) \<Rightarrow> (([], None), c2))"
  using getClusterInventoryInfo_found [OF assms]
  by (simp add: Merge_def Store_def GetObject_def WrapInventoryObj_def)

text \<open>
  C6: when the lookup finds no anchor, Merge returns an empty prune set. In dry-run it sends
  nothing but the list request. With dry-run off, once the create request for the
  descriptor carrying the payload of D is accepted, the store holds one more object, the
  descriptor with that payload, which decodes to exactly D.
\<close>

theorem Merge_creates_anchor:
  assumes lk: "lookup InfoToObjMeta cic (Some li) c = Some (q, [])"
  shows "(dryRun cic \<longrightarrow> Merge InfoToObjMeta cic (Some li) D c = (([], None), log q c))
       \<and> (\<not> dryRun cic
            \<and> InfoToObjMeta (li\<lparr>Data := encode D\<rparr>) = Inr obj
            \<and> mapper cic (omGroupKind obj) = Inr res
            \<and> clientFunc cic res = None
            \<and> fault c (CreateReq res (li\<lparr>Data := encode D\<rparr>)) = None
            \<and> (res, Namespace li, Name li) \<notin> set (map key (objects c)) \<longrightarrow>
              fst (Merge InfoToObjMeta cic (Some li) D c) = ([], None)
              \<and> objects (snd (Merge InfoToObjMeta cic (Some li) D c))
                  = objects c @ [li\<lparr>Data := encode D, Mapping := res\<rparr>]
              \<and> writes (snd (Merge InfoToObjMeta cic (Some li) D c))
                  = writes c @ [CreateReq res (li\<lparr>Data := encode D\<rparr>)]
              \<and> Load (WrapInventoryObj (Some (li\<lparr>Data := encode D, Mapping := res\<rparr>)))
                  = (D, None))"
proof (intro conjI impI)
  assume "dryRun cic"
  then show "Merge InfoToObjMeta cic (Some li) D c = (([], None), log q c)"
    by (simp add: Merge_none [OF lk] createInventoryObj_def)
next
  assume a: "\<not> dryRun cic
            \<and> InfoToObjMeta (li\<lparr>Data := encode D\<rparr>) = Inr obj
            \<and> mapper cic (omGroupKind obj) = Inr res
            \<and> clientFunc cic res = None
            \<and> fault c (CreateReq res (li\<lparr>Data := encode D\<rparr>)) = None
            \<and> (res, Namespace li, Name li) \<notin> set (map key (objects c))"
  from lookup_read [OF lk] have rd: "\<not> isWrite q" .
  from a have cr: "createInventoryObj InfoToObjMeta cic (Some (li\<lparr>Data := encode D\<rparr>)) (log q c)
      = (None, log (CreateReq res (li\<lparr>Data := encode D\<rparr>))
           ((log q c)\<lparr>objects := objects c @ [li\<lparr>Data := encode D, Mapping := res\<rparr>]\<rparr>))"
    by (simp add: createInventoryObj_def store_create_def log_simps key_def)
  show "fst (Merge InfoToObjMeta cic (Some li) D c) = ([], None)"
    by (simp add: Merge_none [OF lk] cr)
  show "objects (snd (Merge InfoToObjMeta cic (Some li) D c))
          = objects c @ [li\<lparr>Data := encode D, Mapping := res\<rparr>]"
    by (simp add: Merge_none [OF lk] cr log_simps)
  show "writes (snd (Merge InfoToObjMeta cic (Some li) D c))
          = writes c @ [CreateReq res (li\<lparr>Data := encode D\<rparr>)]"
    using rd by (simp add: Merge_none [OF lk] cr writes_def log_simps)
  show "Load (WrapInventoryObj (Some (li\<lparr>Data := encode D, Mapping := res\<rparr>))) = (D, None)"
    by (simp add: Load_wrap decode_encode)
qed

theorem Merge_creates_anchor_witness:
  "lookup exInfoToObjMeta (exClient False) exDesc (exCluster [] noFault)
     = Some (ListReq ''ns'' ''configmaps'' (InventoryLabel, ''id''), [])
   \<and> fst (Merge exInfoToObjMeta (exClient False) exDesc [exObj ''a'', exObj ''b'']
            (exCluster [] noFault)) = ([], None)
   \<and> objects (snd (Merge exInfoToObjMeta (exClient False) exDesc [exObj ''a'', exObj ''b'']
            (exCluster [] noFault)))
       = [exAnchor ''x'' (encode [exObj ''a'', exObj ''b''])]
   \<and> Load (WrapInventoryObj (Some (exAnchor ''x'' (encode [exObj ''a'', exObj ''b'']))))
       = ([exObj ''a'', exObj ''b''], None)"
proof -
  let ?D = "[exObj ''a'', exObj ''b'']"
  let ?li = "exAnchor ''x'' []"
  have lk: "lookup exInfoToObjMeta (exClient False) (Some ?li) (exCluster [] noFault)
     = Some (ListReq ''ns'' ''configmaps'' (InventoryLabel, ''id''), [])"
    by code_simp
  have pre: "\<not> dryRun (exClient False)
      \<and> exInfoToObjMeta (?li\<lparr>Data := encode ?D\<rparr>)
          = Inr \<lparr>omNamespace = ''ns'', omName = ''x'', omGroupKind = ''ConfigMap''\<rparr>
      \<and> mapper (exClient False)
            (omGroupKind \<lparr>omNamespace = ''ns'', omName = ''x'', omGroupKind = ''ConfigMap''\<rparr>)
          = Inr ''configmaps''
      \<and> clientFunc (exClient False) ''configmaps'' = None
      \<and> fault (exCluster [] noFault) (CreateReq ''configmaps'' (?li\<lparr>Data := encode ?D\<rparr>)) = None
      \<and> (''configmaps'', Namespace ?li, Name ?li) \<notin> set (map key (objects (exCluster [] noFault)))"
    by (simp add: exClient_def exInfoToObjMeta_def exAnchor_def exMapper_def exClientFunc_def
        exCluster_def noFault_def)
  have new: "objects (exCluster [] noFault) @ [?li\<lparr>Data := encode ?D, Mapping := ''configmaps''\<rparr>]
       = [exAnchor ''x'' (encode ?D)]"
    by (simp add: exCluster_def exAnchor_def)
  have same: "?li\<lparr>Data := encode ?D, Mapping := ''configmaps''\<rparr> = exAnchor ''x'' (encode ?D)"
    by (simp add: exAnchor_def)
  from Merge_creates_anchor [OF lk, of ?D
      "\<lparr>omNamespace = ''ns'', omName = ''x'', omGroupKind = ''ConfigMap''\<rparr>" "''configmaps''"]
    pre new same lk
  show ?thesis by (simp add: exDesc_def)
qed

subsection \<open>Merge twice\<close>

lemma map_replace_absent:
  "key a \<notin> key ` set xs \<Longrightarrow> map (\<lambda>obj. if key obj = key a then u else obj) xs = xs"
  by (induction xs) auto

lemma filter_replaced:
  assumes "distinct (map key xs)" and "filter P xs = [a]" and "P u"
  shows "filter P (map (\<lambda>obj. if key obj = key a then u else obj) xs) = [u]"
  using assms
proof (induction xs)
  case Nil
  then show ?case by simp
next
  case (Cons x xs)
  from Cons.prems(1) have dx: "key x \<notin> key ` set xs" and dxs: "distinct (map key xs)"
    by simp_all
  show ?case
  proof (cases "P x")
    case True
    with Cons.prems(2) have xa: "x = a" and rest: "filter P xs = []" by simp_all
    from dx xa have "map (\<lambda>obj. if key obj = key a then u else obj) xs = xs"
      by (simp add: map_replace_absent)
    with xa rest Cons.prems(3) show ?thesis by simp
  next
    case False
    with Cons.prems(2) have rest: "filter P xs = [a]" by simp
    then have "a \<in> set (filter P xs)" by simp
    then have "a \<in> set xs" by simp
    with dx have "key x \<noteq> key a" by auto
    with False Cons.IH [OF dxs rest Cons.prems(3)] show ?thesis by simp
  qed
qed

text \<open>After an accepted write into the single anchor, a lookup finds the written copy.\<close>

lemma lookup_after_write:
  assumes lk: "lookup InfoToObjMeta cic localInv c = Some (q, [a])"
    and d: "distinct (map key (objects c))"
    and c1: "objects c1 = map (\<lambda>obj. if key obj = key a then a\<lparr>Data := p\<rparr> else obj) (objects c)"
    and f: "fault c1 = fault c"
  shows "lookup InfoToObjMeta cic localInv c1 = Some (q, [a\<lparr>Data := p\<rparr>])"
proof -
  from lk obtain li localObj groupResource label where l:
    "localInv = Some li" "InfoToObjMeta li = Inr localObj"
    "mapper cic (omGroupKind localObj) = Inr groupResource"
    "retrieveInventoryLabel li = Inr label"
    "q = ListReq (omNamespace localObj) groupResource (InventoryLabel, label)"
    "fault c q = None"
    "[a] = filter (matches (omNamespace localObj) groupResource (InventoryLabel, label))
               (objects c)"
    by (rule lookupE)
  let ?P = "matches (omNamespace localObj) groupResource (InventoryLabel, label)"
  from l(7) have "a \<in> set (filter ?P (objects c))" by (metis list.set_intros(1))
  then have "?P (a\<lparr>Data := p\<rparr>)" by (simp add: matches_written)
  from filter_replaced [OF d l(7) [symmetric] this] c1
  have "filter ?P (objects c1) = [a\<lparr>Data := p\<rparr>]" by simp
  with l f show ?thesis by (simp add: lookup_def)
qed

text \<open>
  C5, as the code has it. With one anchor found and stored set S: if D is set-equal to S,
  Merge returns an empty prune set and only sends its two list requests. A second Merge of
  the same D, right after a first one that ran with dry-run off on a store with unique
  keys that accepted the write, returns an empty prune set and writes nothing when S is
  a subset of D.
\<close>

theorem Merge_same_set_is_noop:
  assumes lk: "lookup InfoToObjMeta cic localInv c = Some (q, [a])"
    and ld: "Load (WrapInventoryObj (Some a)) = (S, None)"
  shows "(set D = set S \<longrightarrow>
            fst (Merge InfoToObjMeta cic localInv D c) = ([], None)
            \<and> objects (snd (Merge InfoToObjMeta cic localInv D c)) = objects c
            \<and> writes (snd (Merge InfoToObjMeta cic localInv D c)) = writes c)
       \<and> (set S \<subseteq> set D \<and> \<not> dryRun cic \<and> distinct (map key (objects c))
            \<and> fault c (ReplaceReq (a\<lparr>Data := encode (Union S D)\<rparr>)) = None \<longrightarrow>
            fst (Merge InfoToObjMeta cic localInv D (snd (Merge InfoToObjMeta cic localInv D c)))
              = ([], None)
            \<and> objects (snd (Merge InfoToObjMeta cic localInv D
                              (snd (Merge InfoToObjMeta cic localInv D c))))
              = objects (snd (Merge InfoToObjMeta cic localInv D c))
            \<and> writes (snd (Merge InfoToObjMeta cic localInv D
                              (snd (Merge InfoToObjMeta cic localInv D c))))
              = writes (snd (Merge InfoToObjMeta cic localInv D c)))"
proof -
  from lookup_read [OF lk] have rd: "\<not> isWrite q" .
  have noop: "fst (Merge InfoToObjMeta cic localInv D c') = ([], None)
            \<and> objects (snd (Merge InfoToObjMeta cic localInv D c')) = objects c'
            \<and> writes (snd (Merge InfoToObjMeta cic localInv D c')) = writes c'"
    if "lookup InfoToObjMeta cic localInv c' = Some (q, [a'])"
      and "Load (WrapInventoryObj (Some a')) = (S', None)" and "set D = set S'"
    for c' a' S'
    using that rd by (simp add: Merge_single [OF that(1) that(2)] SetEquals_def log_simps writes_log)
  have twice: "fst (Merge InfoToObjMeta cic localInv D (snd (Merge InfoToObjMeta cic localInv D c)))
              = ([], None)
            \<and> objects (snd (Merge InfoToObjMeta cic localInv D
                              (snd (Merge InfoToObjMeta cic localInv D c))))
              = objects (snd (Merge InfoToObjMeta cic localInv D c))
            \<and> writes (snd (Merge InfoToObjMeta cic localInv D
                              (snd (Merge InfoToObjMeta cic localInv D c))))
              = writes (snd (Merge InfoToObjMeta cic localInv D c))"
    if sub: "set S \<subseteq> set D" and live: "\<not> dryRun cic" and d: "distinct (map key (objects c))"
      and acc: "fault c (ReplaceReq (a\<lparr>Data := encode (Union S D)\<rparr>)) = None"
  proof (cases "set D = set S")
    case True
    then have first: "snd (Merge InfoToObjMeta cic localInv D c) = log q (log q c)"
      by (simp add: Merge_single [OF lk ld] SetEquals_def)
    from lk have "lookup InfoToObjMeta cic localInv (log q (log q c)) = Some (q, [a])" by simp
    from noop [OF this ld True] first show ?thesis by simp
  next
    case False
    let ?u = "a\<lparr>Data := encode (Union S D)\<rparr>"
    let ?c1 = "snd (Merge InfoToObjMeta cic localInv D c)"
    from candidate_in_store [OF lk] have ain: "a \<in> set (objects (log q (log q c)))"
      by (simp add: log_simps)
    from acc have "fault (log q (log q c)) (ReplaceReq ?u) = None" by (simp add: log_simps)
    from store_replace_unfold [OF ain this] False live
    have c1: "objects ?c1 = map (\<lambda>obj. if key obj = key a then ?u else obj) (objects c)"
      "fault ?c1 = fault c"
      by (simp_all add: Merge_single [OF lk ld] SetEquals_def log_simps)
    from lookup_after_write [OF lk d c1]
    have lk1: "lookup InfoToObjMeta cic localInv ?c1 = Some (q, [?u])" .
    from sub have "set D = set (Union S D)" by (auto simp: set_Union)
    from noop [OF lk1 Load_written this] show ?thesis .
  qed
  from noop [OF lk ld] twice show ?thesis by blast
qed

theorem Merge_same_set_is_noop_witness:
  "lookup exInfoToObjMeta (exClient False) exDesc
       (exCluster [exAnchor ''x'' (encode [exObj ''a''])] noFault)
     = Some (ListReq ''ns'' ''configmaps'' (InventoryLabel, ''id''),
             [exAnchor ''x'' (encode [exObj ''a''])])
   \<and> Load (WrapInventoryObj (Some (exAnchor ''x'' (encode [exObj ''a''])))) = ([exObj ''a''], None)
   \<and> set [exObj ''a''] \<subseteq> set [exObj ''a'', exObj ''b'']
   \<and> fst (Merge exInfoToObjMeta (exClient False) exDesc [exObj ''a'', exObj ''b'']
        (snd (Merge exInfoToObjMeta (exClient False) exDesc [exObj ''a'', exObj ''b'']
               (exCluster [exAnchor ''x'' (encode [exObj ''a''])] noFault)))) = ([], None)
   \<and> writes (snd (Merge exInfoToObjMeta (exClient False) exDesc [exObj ''a'', exObj ''b'']
        (snd (Merge exInfoToObjMeta (exClient False) exDesc [exObj ''a'', exObj ''b'']
               (exCluster [exAnchor ''x'' (encode [exObj ''a''])] noFault)))))
     = writes (snd (Merge exInfoToObjMeta (exClient False) exDesc [exObj ''a'', exObj ''b'']
               (exCluster [exAnchor ''x'' (encode [exObj ''a''])] noFault)))"
proof -
  let ?S = "[exObj ''a'']"
  let ?D = "[exObj ''a'', exObj ''b'']"
  let ?c = "exCluster [exAnchor ''x'' (encode ?S)] noFault"
  have lk: "lookup exInfoToObjMeta (exClient False) exDesc ?c
     = Some (ListReq ''ns'' ''configmaps'' (InventoryLabel, ''id''), [exAnchor ''x'' (encode ?S)])"
    by code_simp
  have ld: "Load (WrapInventoryObj (Some (exAnchor ''x'' (encode ?S)))) = (?S, None)"
    by code_simp
  have pre: "set ?S \<subseteq> set ?D \<and> \<not> dryRun (exClient False) \<and> distinct (map key (objects ?c))
      \<and> fault ?c (ReplaceReq ((exAnchor ''x'' (encode ?S))\<lparr>Data := encode (Union ?S ?D)\<rparr>)) = None"
    by (simp add: exClient_def exCluster_def noFault_def)
  from Merge_same_set_is_noop [OF lk ld, of ?D] pre lk ld show ?thesis by blast
qed

text \<open>
  C5 as stated fails: with stored set {a}, a first Merge of {b} stores {a, b}, and a second
  Merge of {b} returns the prune set {a} again and sends a second replace request.
\<close>

theorem Merge_twice_prunes_again:
  "fst (Merge exInfoToObjMeta (exClient False) exDesc [exObj ''b'']
        (snd (Merge exInfoToObjMeta (exClient False) exDesc [exObj ''b'']
               (exCluster [exAnchor ''x'' (encode [exObj ''a''])] noFault))))
     = ([exObj ''a''], None)
   \<and> length (writes (snd (Merge exInfoToObjMeta (exClient False) exDesc [exObj ''b'']
        (snd (Merge exInfoToObjMeta (exClient False) exDesc [exObj ''b'']
               (exCluster [exAnchor ''x'' (encode [exObj ''a''])] noFault)))))) = 2"
proof
  show "fst (Merge exInfoToObjMeta (exClient False) exDesc [exObj ''b'']
        (snd (Merge exInfoToObjMeta (exClient False) exDesc [exObj ''b'']
               (exCluster [exAnchor ''x'' (encode [exObj ''a''])] noFault))))
     = ([exObj ''a''], None)"
    by code_simp
  show "length (writes (snd (Merge exInfoToObjMeta (exClient False) exDesc [exObj ''b'']
        (snd (Merge exInfoToObjMeta (exClient False) exDesc [exObj ''b'']
               (exCluster [exAnchor ''x'' (encode [exObj ''a''])] noFault)))))) = 2"
    by code_simp
qed

subsection \<open>Duplicate resolution\<close>

lemma DeleteInventoryObj_done:
  assumes "DeleteInventoryObj InfoToObjMeta cic (Some m) c = (None, c')"
    and "\<not> dryRun cic" and "sameResource InfoToObjMeta cic m"
  shows "objects c' = filter (\<lambda>obj. key obj \<noteq> key m) (objects c) \<and> fault c' = fault c"
  using assms
  by (auto simp: DeleteInventoryObj_def store_delete_def sameResource_def log_simps key_def
      split: sum.splits option.splits if_splits)

lemma deleteOthers_done:
  assumes "deleteOthers InfoToObjMeta cic ms c = (None, c')"
    and "\<not> dryRun cic" and "\<forall>m\<in>set ms. sameResource InfoToObjMeta cic m"
  shows "objects c' = filter (\<lambda>obj. key obj \<notin> key ` set ms) (objects c) \<and> fault c' = fault c"
  using assms
proof (induction ms arbitrary: c)
  case Nil
  then show ?case by simp
next
  case (Cons m ms)
  obtain r1 c1 where d: "DeleteInventoryObj InfoToObjMeta cic (Some m) c = (r1, c1)"
    by (cases "DeleteInventoryObj InfoToObjMeta cic (Some m) c")
  with Cons.prems(1) have r1: "r1 = None"
    and rest: "deleteOthers InfoToObjMeta cic ms c1 = (None, c')"
    by (auto split: option.splits)
  from Cons.prems(3) have "sameResource InfoToObjMeta cic m" by simp
  from DeleteInventoryObj_done [OF d [unfolded r1] Cons.prems(2) this]
  have c1: "objects c1 = filter (\<lambda>obj. key obj \<noteq> key m) (objects c)" "fault c1 = fault c"
    by simp_all
  from Cons.prems(3) have "\<forall>m\<in>set ms. sameResource InfoToObjMeta cic m" by simp
  from Cons.IH [OF rest Cons.prems(2) this] c1 show ?case
    by (auto intro: filter_cong)
qed

lemma merged_facts:
  assumes "invInfos \<noteq> []" and "\<forall>i\<in>set invInfos. \<not> loadFails i"
  shows "\<exists>S. Load (WrapInventoryObj (Some (retainedOf invInfos))) = (S, None)
            \<and> loadOthers S (tl (sortInfos invInfos)) = (mergedObjs invInfos, None)"
    and "set (mergedObjs invInfos) = \<Union>(stored ` set invInfos)"
proof -
  from assms(1) obtain x ms where srt: "sortInfos invInfos = x # ms"
    by (cases "sortInfos invInfos") (auto simp: sortInfos_Nil)
  then have sets: "set invInfos = insert x (set ms)"
    by (metis set_sortInfos list.simps(15))
  from srt have ret: "retainedOf invInfos = x" by (simp add: retainedOf_def)
  from assms(2) sets obtain S where S: "Load (WrapInventoryObj (Some x)) = (S, None)"
    "stored x = set S"
    by (cases x rule: Load_cases) auto
  from assms(2) sets have "\<forall>i\<in>set ms. \<not> loadFails i" by simp
  from loadOthers_loads [OF this, of S] obtain U where
    U: "loadOthers S ms = (U, None)" "set U = set S \<union> \<Union>(stored ` set ms)"
    by blast
  from S U srt ret have m: "mergedObjs invInfos = U" by (simp add: mergedObjs_def)
  with S U srt ret show "\<exists>S. Load (WrapInventoryObj (Some (retainedOf invInfos))) = (S, None)
            \<and> loadOthers S (tl (sortInfos invInfos)) = (mergedObjs invInfos, None)"
    by simp
  from m S U sets show "set (mergedObjs invInfos) = \<Union>(stored ` set invInfos)" by auto
qed

lemma mergeClusterInventory_loads:
  assumes ne: "invInfos \<noteq> []" and ok: "\<forall>i\<in>set invInfos. \<not> loadFails i"
  shows "mergeClusterInventory InfoToObjMeta cic invInfos c =
           (case applyInventoryObj cic (Some (mergedInfo invInfos)) c of
              (Some e, c1) \<Rightarrow> ((None, Some e), c1)
            | (None, c1) \<Rightarrow>
                (case deleteOthers InfoToObjMeta cic (tl (sortInfos invInfos)) c1 of
                   (Some e, c2) \<Rightarrow> ((None, Some e), c2)
                 | (None, c2) \<Rightarrow> ((Some (mergedInfo invInfos), None), c2)))"
proof -
  from ne obtain x ms where srt: "sortInfos invInfos = x # ms"
    by (cases "sortInfos invInfos") (auto simp: sortInfos_Nil)
  from merged_facts(1) [OF ne ok] obtain S where
    S: "Load (WrapInventoryObj (Some (retainedOf invInfos))) = (S, None)"
    "loadOthers S (tl (sortInfos invInfos)) = (mergedObjs invInfos, None)"
    by blast
  from srt have ret: "retainedOf invInfos = x" by (simp add: retainedOf_def)
  from S srt ret have "Load (WrapInventoryObj (Some x)) = (S, None)"
    "loadOthers S ms = (mergedObjs invInfos, None)"
    by simp_all
  then show ?thesis
    unfolding mergedInfo_def ret srt list.sel
    by (rule mergeClusterInventory_loaded [OF srt])
qed

lemma mergeClusterInventory_dry_result:
  assumes "dryRun cic" and "invInfos \<noteq> []" and "\<forall>i\<in>set invInfos. \<not> loadFails i"
  shows "mergeClusterInventory InfoToObjMeta cic invInfos c
           = ((Some (mergedInfo invInfos), None), c)"
  using assms(1)
  by (simp add: mergeClusterInventory_loads [OF assms(2,3)] applyInventoryObj_def
      deleteOthers_dry)

lemma mergeClusterInventory_live_result:
  assumes run: "mergeClusterInventory InfoToObjMeta cic invInfos c = ((ci, None), c')"
    and live: "\<not> dryRun cic" and ne: "invInfos \<noteq> []"
    and sr: "\<forall>m\<in>set invInfos. sameResource InfoToObjMeta cic m"
  shows "ci = Some (mergedInfo invInfos)"
    and "\<forall>i\<in>set invInfos. \<not> loadFails i"
    and "objects c' =
           filter (\<lambda>obj. key obj \<notin> key ` set (tl (sortInfos invInfos)))
             (map (\<lambda>obj. if key obj = key (retainedOf invInfos) then mergedInfo invInfos else obj)
                (objects c))"
    and "fault c' = fault c"
    and "key (retainedOf invInfos) \<in> key ` set (objects c)"
proof -
  show ok: "\<forall>i\<in>set invInfos. \<not> loadFails i"
  proof (rule ccontr)
    assume "\<not> (\<forall>i\<in>set invInfos. \<not> loadFails i)"
    then obtain i where "i \<in> set invInfos" "loadFails i" by blast
    from load_failure_any [OF this, of InfoToObjMeta cic c] run show False by auto
  qed
  let ?u = "mergedInfo invInfos"
  obtain r1 c1 where ap: "applyInventoryObj cic (Some ?u) c = (r1, c1)"
    by (cases "applyInventoryObj cic (Some ?u) c")
  obtain r2 c2 where del: "deleteOthers InfoToObjMeta cic (tl (sortInfos invInfos)) c1 = (r2, c2)"
    by (cases "deleteOthers InfoToObjMeta cic (tl (sortInfos invInfos)) c1")
  from run ap del have res: "r1 = None" "r2 = None" "ci = Some ?u" "c' = c2"
    unfolding mergeClusterInventory_loads [OF ne ok]
    by (auto split: option.splits)
  then show "ci = Some ?u" by simp
  from ap live res have "store_replace ?u c = (None, c1)" by (simp add: applyInventoryObj_def)
  from store_replace_accepted [OF this]
  have c1: "objects c1 = map (\<lambda>obj. if key obj = key ?u then ?u else obj) (objects c)"
    "fault c1 = fault c" "key ?u \<in> set (map key (objects c))"
    by simp_all
  have ku: "key ?u = key (retainedOf invInfos)" by (simp add: mergedInfo_def key_written)
  from sr have "\<forall>m\<in>set (tl (sortInfos invInfos)). sameResource InfoToObjMeta cic m"
    by (metis list.set_sel(2) set_sortInfos tl_Nil)
  from deleteOthers_done [OF del [unfolded res] live this] c1 ku res
  show "objects c' =
           filter (\<lambda>obj. key obj \<notin> key ` set (tl (sortInfos invInfos)))
             (map (\<lambda>obj. if key obj = key (retainedOf invInfos) then ?u else obj) (objects c))"
    and "fault c' = fault c"
    by simp_all
  from c1 ku show "key (retainedOf invInfos) \<in> key ` set (objects c)" by simp
qed

text \<open>What is left of the candidates once the retained one is rewritten and the others are gone.\<close>

lemma resolved_filter:
  assumes "distinct (map key xs)" and "r \<in> set xs" and "P u" and "key u \<notin> K"
    and "\<forall>obj\<in>set xs. P obj \<and> obj \<noteq> r \<longrightarrow> key obj \<in> K"
  shows "filter P (filter (\<lambda>obj. key obj \<notin> K)
                     (map (\<lambda>obj. if key obj = key r then u else obj) xs)) = [u]"
  using assms
proof (induction xs)
  case Nil
  then show ?case by simp
next
  case (Cons x xs)
  from Cons.prems(1) have dx: "key x \<notin> key ` set xs" and dxs: "distinct (map key xs)"
    by simp_all
  show ?case
  proof (cases "x = r")
    case True
    with dx have same: "map (\<lambda>obj. if key obj = key r then u else obj) xs = xs"
      by (simp add: map_replace_absent)
    from True dx have "r \<notin> set xs" by auto
    with Cons.prems(5) have "\<forall>obj\<in>set xs. P obj \<longrightarrow> key obj \<in> K" by auto
    then have "filter P (filter (\<lambda>obj. key obj \<notin> K) xs) = []"
      by (auto simp: filter_empty_conv)
    with True same Cons.prems(3,4) show ?thesis by simp
  next
    case False
    with Cons.prems(2) have rin: "r \<in> set xs" by simp
    with dx have kx: "key x \<noteq> key r" by auto
    from Cons.prems(5) False have drop: "P x \<longrightarrow> key x \<in> K" by simp
    from Cons.prems(5) have "\<forall>obj\<in>set xs. P obj \<and> obj \<noteq> r \<longrightarrow> key obj \<in> K" by simp
    from Cons.IH [OF dxs rin Cons.prems(3,4) this] kx drop show ?thesis by auto
  qed
qed

lemma resolved_set:
  assumes d: "distinct (map key xs)" and r: "r \<in> set cs" and cs: "set cs \<subseteq> set xs"
    and K: "K = key ` (set cs - {r})"
  shows "set (filter (\<lambda>obj. key obj \<notin> K)
                (map (\<lambda>obj. if key obj = key r then u else obj) xs))
           = (set xs - set cs) \<union> (if key u \<in> K then {} else {u})"
proof -
  from d have inj: "inj_on key (set xs)" by (simp add: distinct_map)
  from r cs have rx: "r \<in> set xs" by auto
  have eq: "obj = r" if "obj \<in> set xs" "key obj = key r" for obj
    using inj that rx by (auto dest: inj_onD)
  have inK: "key obj \<in> K \<longleftrightarrow> obj \<in> set cs \<and> obj \<noteq> r" if "obj \<in> set xs" for obj
  proof
    assume "key obj \<in> K"
    with K obtain m where m: "m \<in> set cs" "m \<noteq> r" "key obj = key m" by auto
    with cs that inj have "obj = m" by (auto dest: inj_onD)
    with m show "obj \<in> set cs \<and> obj \<noteq> r" by simp
  next
    assume "obj \<in> set cs \<and> obj \<noteq> r"
    with K show "key obj \<in> K" by auto
  qed
  show ?thesis
  proof (intro set_eqI iffI)
    fix y
    assume "y \<in> set (filter (\<lambda>obj. key obj \<notin> K)
                (map (\<lambda>obj. if key obj = key r then u else obj) xs))"
    then obtain obj where obj: "obj \<in> set xs" "y = (if key obj = key r then u else obj)"
      "key y \<notin> K"
      by auto
    show "y \<in> (set xs - set cs) \<union> (if key u \<in> K then {} else {u})"
    proof (cases "key obj = key r")
      case True
      with obj show ?thesis by auto
    next
      case False
      with obj have "y = obj" "obj \<noteq> r" by auto
      with obj inK [of obj] show ?thesis by auto
    qed
  next
    fix y
    assume y: "y \<in> (set xs - set cs) \<union> (if key u \<in> K then {} else {u})"
    show "y \<in> set (filter (\<lambda>obj. key obj \<notin> K)
                (map (\<lambda>obj. if key obj = key r then u else obj) xs))"
    proof (cases "y \<in> set xs - set cs")
      case True
      with r have "y \<noteq> r" by auto
      with True eq [of y] have "key y \<noteq> key r" by auto
      moreover from True inK [of y] have "key y \<notin> K" by auto
      ultimately show ?thesis using True by (auto simp: image_iff intro!: bexI [of _ y])
    next
      case False
      with y have yu: "y = u" "key u \<notin> K" by (auto split: if_splits)
      with rx show ?thesis by (auto simp: image_iff intro!: bexI [of _ r])
    qed
  qed
qed

text \<open>A successful resolution with dry-run off, seen from getClusterInventoryInfo.\<close>

lemma resolution_live:
  assumes lk: "lookup InfoToObjMeta cic localInv c = Some (q, infos)"
    and many: "length infos > 1" and live: "\<not> dryRun cic"
    and d: "distinct (map key (objects c))"
    and sr: "\<forall>m\<in>set (objects c). sameResource InfoToObjMeta cic m"
    and run: "getClusterInventoryInfo InfoToObjMeta cic localInv c = ((ci, None), c')"
  shows "ci = Some (mergedInfo infos)"
    and "\<forall>i\<in>set infos. \<not> loadFails i"
    and "lookup InfoToObjMeta cic localInv c' = Some (q, [mergedInfo infos])"
    and "set (objects c') = set (objects c) - set infos \<union> {mergedInfo infos}"
    and "fault c' = fault c"
proof -
  from lk obtain li localObj groupResource label where l:
    "localInv = Some li" "InfoToObjMeta li = Inr localObj"
    "mapper cic (omGroupKind localObj) = Inr groupResource"
    "retrieveInventoryLabel li = Inr label"
    "q = ListReq (omNamespace localObj) groupResource (InventoryLabel, label)"
    "fault c q = None"
    "infos = filter (matches (omNamespace localObj) groupResource (InventoryLabel, label))
               (objects c)"
    by (rule lookupE)
  define P where "P = matches (omNamespace localObj) groupResource (InventoryLabel, label)"
  from l(7) have P1: "infos = filter P (objects c)" by (simp add: P_def)
  have P2: "lookup InfoToObjMeta cic localInv c1 = Some (q, filter P (objects c1))"
    if "fault c1 = fault c" for c1
    using l(1-6) that by (simp add: P_def lookup_def)
  have P3: "P (a\<lparr>Data := p\<rparr>) = P a" for a p
    by (simp add: P_def matches_written)
  note P = P1 P2 P3
  from many have ne: "infos \<noteq> []" by auto
  from P(1) have sub: "set infos \<subseteq> set (objects c)" by auto
  with sr have sr': "\<forall>m\<in>set infos. sameResource InfoToObjMeta cic m" by auto
  from many run have m: "mergeClusterInventory InfoToObjMeta cic infos (log q c) = ((ci, None), c')"
    unfolding getClusterInventoryInfo_found [OF lk]
    by (auto split: prod.splits option.splits)
  note res = mergeClusterInventory_live_result [OF m live ne sr']
  from res(1) show "ci = Some (mergedInfo infos)" .
  from res(2) show "\<forall>i\<in>set infos. \<not> loadFails i" .
  from res(4) show f: "fault c' = fault c" by (simp add: log_simps)
  let ?r = "retainedOf infos" and ?u = "mergedInfo infos" and ?ms = "tl (sortInfos infos)"
  from ne obtain x ms where srt: "sortInfos infos = x # ms"
    by (cases "sortInfos infos") (auto simp: sortInfos_Nil)
  then have r: "?r = x" and ms: "?ms = ms" by (simp_all add: retainedOf_def)
  from d have "distinct (objects c)" by (simp add: distinct_map)
  with P(1) have "distinct infos" by simp
  then have "distinct (sortInfos infos)" by (simp add: sortInfos_def)
  with srt have xms: "x \<notin> set ms" by simp
  from srt have sets: "set infos = insert x (set ms)"
    by (metis set_sortInfos list.simps(15))
  with xms r ms have K: "key ` set ?ms = key ` (set infos - {?r})" by auto
  from sets r have rin: "?r \<in> set infos" by simp
  with sub have rx: "?r \<in> set (objects c)" by auto
  from d have inj: "inj_on key (set (objects c))" by (simp add: distinct_map)
  have ku: "key ?u = key ?r" by (simp add: mergedInfo_def key_written)
  have notK: "key ?u \<notin> key ` set ?ms"
  proof
    assume "key ?u \<in> key ` set ?ms"
    then have "key ?r \<in> key ` (set infos - {?r})" by (simp add: K ku)
    then obtain m where "m \<in> set infos" "m \<noteq> ?r" "key m = key ?r" by force
    with sub rx inj show False by (auto dest: inj_onD)
  qed
  from rin P(1) have "P ?r" by simp
  then have Pu: "P ?u" by (simp add: mergedInfo_def P(3))
  have others: "\<forall>obj\<in>set (objects c). P obj \<and> obj \<noteq> ?r \<longrightarrow> key obj \<in> key ` set ?ms"
    using P(1) K by auto
  from resolved_filter [OF d rx Pu notK others] res(3)
  have "filter P (objects c') = [?u]" by (simp add: log_simps)
  with P(2) [OF f] show "lookup InfoToObjMeta cic localInv c' = Some (q, [?u])" by simp
  from resolved_set [OF d rin sub K, of ?u] notK res(3)
  show "set (objects c') = set (objects c) - set infos \<union> {?u}" by (simp add: log_simps)
qed

text \<open>The order of the candidates: the retained one is least, whatever order they came in.\<close>

lemma retained_least:
  assumes "infos \<noteq> []"
  shows "retainedOf infos \<in> set infos"
    and "\<forall>i\<in>set infos. (Namespace (retainedOf infos), Name (retainedOf infos))
                           \<le> (Namespace i, Name i)"
proof -
  let ?f = "\<lambda>i. (Namespace i, Name i)"
  from assms obtain x ms where srt: "sortInfos infos = x # ms"
    by (cases "sortInfos infos") (auto simp: sortInfos_Nil)
  then have sets: "set infos = insert x (set ms)"
    by (metis set_sortInfos list.simps(15))
  from srt have r: "retainedOf infos = x" by (simp add: retainedOf_def)
  with sets show "retainedOf infos \<in> set infos" by simp
  have "sorted (map ?f (sortInfos infos))" by (simp add: sortInfos_def)
  with srt have "\<forall>y\<in>set ms. ?f x \<le> ?f y" by simp
  with sets r show "\<forall>i\<in>set infos. ?f (retainedOf infos) \<le> ?f i" by auto
qed

lemma sortInfos_unique:
  assumes inj: "inj_on (\<lambda>i. (Namespace i, Name i)) (set xs)"
    and "distinct xs" and "distinct ys" and "set ys = set xs"
  shows "sortInfos ys = sortInfos xs"
proof -
  let ?f = "\<lambda>i. (Namespace i, Name i)"
  have facts: "sorted (map ?f (sortInfos zs)) \<and> distinct (map ?f (sortInfos zs))
      \<and> set (map ?f (sortInfos zs)) = ?f ` set xs"
    if "distinct zs" "set zs = set xs" for zs
    using that inj by (simp add: sortInfos_def distinct_map)
  from facts [OF assms(3,4)] facts [OF assms(2)]
  have "map ?f (sortInfos ys) = map ?f (sortInfos xs)"
    by (intro sorted_distinct_set_unique) simp_all
  moreover have "inj_on ?f (set (sortInfos ys) \<union> set (sortInfos xs))"
    using inj assms(4) by (simp add: set_sortInfos)
  ultimately show ?thesis by (simp add: inj_on_map_eq_map)
qed

lemma candidates_ordered_apart:
  assumes lk: "lookup InfoToObjMeta cic localInv c = Some (q, infos)"
    and d: "distinct (map key (objects c))"
  shows "distinct infos" and "inj_on (\<lambda>i. (Namespace i, Name i)) (set infos)"
proof -
  from lk obtain li localObj groupResource label where
    "localInv = Some li" "InfoToObjMeta li = Inr localObj"
    "mapper cic (omGroupKind localObj) = Inr groupResource"
    "retrieveInventoryLabel li = Inr label"
    "q = ListReq (omNamespace localObj) groupResource (InventoryLabel, label)"
    "fault c q = None"
    and l: "infos = filter (matches (omNamespace localObj) groupResource (InventoryLabel, label))
               (objects c)"
    by (rule lookupE)
  from d have dist: "distinct (objects c)" and inj: "inj_on key (set (objects c))"
    by (simp_all add: distinct_map)
  from dist l show "distinct infos" by simp
  show "inj_on (\<lambda>i. (Namespace i, Name i)) (set infos)"
  proof (rule inj_onI)
    fix a b
    assume a: "a \<in> set infos" and b: "b \<in> set infos"
      and eq: "(Namespace a, Name a) = (Namespace b, Name b)"
    from a b l have "Mapping a = Mapping b" by (simp add: matches_def)
    with eq have "key a = key b" by (simp add: key_def)
    moreover from a b l have "a \<in> set (objects c)" "b \<in> set (objects c)" by simp_all
    ultimately show "a = b" using inj by (auto dest: inj_onD)
  qed
qed

text \<open>
  C3, as the code has it. Let the lookup find more than one candidate in a store with
  unique keys whose objects are stored under the resource type of their kind. The retained
  candidate is the least by namespace and name, whatever order the candidates came in.
  With dry-run off, when the lookup returns without error it returns the retained
  candidate carrying the union of the stored sets of all candidates; the store holds that
  object in place of all the candidates and nothing else has changed; a new lookup finds
  only that object and returns it after its list request alone. In dry-run, when every
  candidate loads, the lookup returns the same object and sends only its list request.
\<close>

theorem duplicates_resolved:
  assumes lk: "lookup InfoToObjMeta cic localInv c = Some (q, infos)"
    and many: "length infos > 1"
    and d: "distinct (map key (objects c))"
    and sr: "\<forall>m\<in>set (objects c). sameResource InfoToObjMeta cic m"
  shows "(\<not> dryRun cic \<and> snd (fst (getClusterInventoryInfo InfoToObjMeta cic localInv c)) = None \<longrightarrow>
            fst (fst (getClusterInventoryInfo InfoToObjMeta cic localInv c))
              = Some (mergedInfo infos)
            \<and> set (objects (snd (getClusterInventoryInfo InfoToObjMeta cic localInv c)))
              = set (objects c) - set infos \<union> {mergedInfo infos}
            \<and> lookup InfoToObjMeta cic localInv
                 (snd (getClusterInventoryInfo InfoToObjMeta cic localInv c))
              = Some (q, [mergedInfo infos])
            \<and> getClusterInventoryInfo InfoToObjMeta cic localInv
                 (snd (getClusterInventoryInfo InfoToObjMeta cic localInv c))
              = ((Some (mergedInfo infos), None),
                 log q (snd (getClusterInventoryInfo InfoToObjMeta cic localInv c)))
            \<and> Load (WrapInventoryObj (Some (mergedInfo infos))) = (mergedObjs infos, None)
            \<and> set (mergedObjs infos) = \<Union>(stored ` set infos))
       \<and> (dryRun cic \<and> (\<forall>i\<in>set infos. \<not> loadFails i) \<longrightarrow>
            getClusterInventoryInfo InfoToObjMeta cic localInv c
              = ((Some (mergedInfo infos), None), log q c))
       \<and> mergedInfo infos = (retainedOf infos)\<lparr>Data := encode (mergedObjs infos)\<rparr>
       \<and> retainedOf infos \<in> set infos
       \<and> (\<forall>i\<in>set infos. (Namespace (retainedOf infos), Name (retainedOf infos))
                            \<le> (Namespace i, Name i))
       \<and> (\<forall>infos'. distinct infos' \<and> set infos' = set infos \<longrightarrow>
             retainedOf infos' = retainedOf infos)"
proof -
  let ?G = "getClusterInventoryInfo InfoToObjMeta cic localInv c"
  let ?u = "mergedInfo infos"
  from many have ne: "infos \<noteq> []" by auto
  have livePart: "fst (fst ?G) = Some ?u
            \<and> set (objects (snd ?G)) = set (objects c) - set infos \<union> {?u}
            \<and> lookup InfoToObjMeta cic localInv (snd ?G) = Some (q, [?u])
            \<and> getClusterInventoryInfo InfoToObjMeta cic localInv (snd ?G)
                 = ((Some ?u, None), log q (snd ?G))
            \<and> Load (WrapInventoryObj (Some ?u)) = (mergedObjs infos, None)
            \<and> set (mergedObjs infos) = \<Union>(stored ` set infos)"
    if live: "\<not> dryRun cic" and ok: "snd (fst ?G) = None"
  proof -
    from ok have run: "?G = ((fst (fst ?G), None), snd ?G)"
      by (metis prod.collapse)
    note r = resolution_live [OF lk many live d sr run]
    from getClusterInventoryInfo_found [OF r(3)]
    have again: "getClusterInventoryInfo InfoToObjMeta cic localInv (snd ?G)
                 = ((Some ?u, None), log q (snd ?G))"
      by simp
    from r(1,3,4) again merged_facts(2) [OF ne r(2)] show ?thesis
      by (simp add: mergedInfo_def Load_written)
  qed
  have dryPart: "?G = ((Some ?u, None), log q c)"
    if "dryRun cic" and "\<forall>i\<in>set infos. \<not> loadFails i"
    using many getClusterInventoryInfo_found [OF lk]
      mergeClusterInventory_dry_result [OF that(1) ne that(2), of InfoToObjMeta "log q c"]
    by simp
  note apart = candidates_ordered_apart [OF lk d]
  have det: "retainedOf infos' = retainedOf infos"
    if "distinct infos'" "set infos' = set infos" for infos'
    using sortInfos_unique [OF apart(2) apart(1) that] by (simp add: retainedOf_def)
  from livePart dryPart retained_least [OF ne] det show ?thesis
    by (simp add: mergedInfo_def)
qed

theorem duplicates_resolved_witness:
  "lookup exInfoToObjMeta (exClient False) exDesc (exCluster twoAnchors noFault)
     = Some (ListReq ''ns'' ''configmaps'' (InventoryLabel, ''id''), twoAnchors)
   \<and> length twoAnchors > 1
   \<and> distinct (map key (objects (exCluster twoAnchors noFault)))
   \<and> list_all (sameResource exInfoToObjMeta (exClient False))
         (objects (exCluster twoAnchors noFault))
   \<and> fst (getClusterInventoryInfo exInfoToObjMeta (exClient False) exDesc
             (exCluster twoAnchors noFault))
     = (Some (exAnchor ''x'' (encode [exObj ''a'', exObj ''b''])), None)
   \<and> set (objects (snd (getClusterInventoryInfo exInfoToObjMeta (exClient False) exDesc
             (exCluster twoAnchors noFault))))
     = {exAnchor ''x'' (encode [exObj ''a'', exObj ''b''])}"
proof -
  let ?c = "exCluster twoAnchors noFault"
  let ?G = "getClusterInventoryInfo exInfoToObjMeta (exClient False) exDesc ?c"
  have lk: "lookup exInfoToObjMeta (exClient False) exDesc ?c
     = Some (ListReq ''ns'' ''configmaps'' (InventoryLabel, ''id''), twoAnchors)"
    by code_simp
  have many: "length twoAnchors > 1"
    by (simp add: twoAnchors_def)
  have d: "distinct (map key (objects ?c))"
    by code_simp
  have sr: "\<forall>m\<in>set (objects ?c). sameResource exInfoToObjMeta (exClient False) m"
    by code_simp
  have live: "\<not> dryRun (exClient False)"
    by (simp add: exClient_def)
  have ok: "snd (fst ?G) = None"
    by code_simp
  have u: "mergedInfo twoAnchors = exAnchor ''x'' (encode [exObj ''a'', exObj ''b''])"
    by code_simp
  have rest: "set (objects ?c) - set twoAnchors = {}"
    by (simp add: exCluster_def)
  from duplicates_resolved [OF lk many d sr] live ok
  have "fst (fst ?G) = Some (mergedInfo twoAnchors)"
    and "set (objects (snd ?G)) = set (objects ?c) - set twoAnchors \<union> {mergedInfo twoAnchors}"
    by blast+
  with ok u rest have "fst ?G = (Some (exAnchor ''x'' (encode [exObj ''a'', exObj ''b''])), None)"
    and "set (objects (snd ?G)) = {exAnchor ''x'' (encode [exObj ''a'', exObj ''b''])}"
    by (auto simp: prod_eq_iff)
  with lk many d sr show ?thesis by (simp add: list_all_iff)
qed

text \<open>
  C3 as stated fails: in dry-run the lookup finds the same two candidates, stores nothing
  and deletes nothing.
\<close>

theorem duplicates_stay_in_dry_run:
  "lookup exInfoToObjMeta (exClient True) exDesc (exCluster twoAnchors noFault)
     = Some (ListReq ''ns'' ''configmaps'' (InventoryLabel, ''id''), twoAnchors)
   \<and> objects (snd (getClusterInventoryInfo exInfoToObjMeta (exClient True) exDesc
                     (exCluster twoAnchors noFault))) = twoAnchors
   \<and> writes (snd (getClusterInventoryInfo exInfoToObjMeta (exClient True) exDesc
                     (exCluster twoAnchors noFault))) = []"
proof (intro conjI)
  show "lookup exInfoToObjMeta (exClient True) exDesc (exCluster twoAnchors noFault)
     = Some (ListReq ''ns'' ''configmaps'' (InventoryLabel, ''id''), twoAnchors)"
    by code_simp
  show "objects (snd (getClusterInventoryInfo exInfoToObjMeta (exClient True) exDesc
                     (exCluster twoAnchors noFault))) = twoAnchors"
    by code_simp
  show "writes (snd (getClusterInventoryInfo exInfoToObjMeta (exClient True) exDesc
                     (exCluster twoAnchors noFault))) = []"
    by code_simp
qed

subsection \<open>Dry-run against a live run\<close>

lemma SetDryRun_simps:
  "dryRun (SetDryRun b cic) = b"
  "lookup InfoToObjMeta (SetDryRun b cic) localInv c = lookup InfoToObjMeta cic localInv c"
  "sameResource InfoToObjMeta (SetDryRun b cic) m = sameResource InfoToObjMeta cic m"
  by (simp_all add: SetDryRun_def lookup_def sameResource_def split: option.splits sum.splits)

lemma Merge_lookup_failed:
  assumes "lookup InfoToObjMeta cic localInv c = None"
  shows "snd (fst (Merge InfoToObjMeta cic localInv D c)) \<noteq> None"
proof -
  from getClusterInventoryInfo_failed [OF assms] obtain e c1 where
    "getClusterInventoryInfo InfoToObjMeta cic localInv c = ((None, Some e), c1)"
    by blast
  then show ?thesis by (simp add: Merge_def)
qed

lemma Merge_resolution_failed:
  assumes "getClusterInventoryInfo InfoToObjMeta cic localInv c = ((ci, Some e), c1)"
  shows "snd (fst (Merge InfoToObjMeta cic localInv D c)) \<noteq> None"
  using assms by (simp add: Merge_def split: option.splits)

lemma Merge_load_failed:
  assumes "getClusterInventoryInfo InfoToObjMeta cic localInv c = ((Some a, None), c1)"
    and "GetClusterObjs InfoToObjMeta cic localInv c1 = ((S, Some e), c2)"
  shows "snd (fst (Merge InfoToObjMeta cic localInv D c)) \<noteq> None"
  using assms by (simp add: Merge_def)

lemma Merge_found:
  assumes "getClusterInventoryInfo InfoToObjMeta cic localInv c = ((Some a, None), c1)"
    and "GetClusterObjs InfoToObjMeta cic localInv c1 = ((S, None), c2)"
  shows "Merge InfoToObjMeta cic localInv D c =
           (if SetEquals D S then (([], None), c2)
            else if dryRun cic then ((SetDiff S D, None), c2)
            else (case store_replace (a\<lparr>Data := encode (Union S D)\<rparr>) c2 of
                    (Some e, c3) \<Rightarrow> ((SetDiff S D, Some e), c3)
                  | (None, c3) \<Rightarrow> ((SetDiff S D, None), c3)))"
  using assms
  by (simp add: Merge_def Store_def GetObject_def WrapInventoryObj_def applyInventoryObj_def
      Let_def split: option.splits prod.splits)

lemma Merge_found_prune:
  assumes "getClusterInventoryInfo InfoToObjMeta cic localInv c = ((Some a, None), c1)"
    and "GetClusterObjs InfoToObjMeta cic localInv c1 = ((S, None), c2)"
  shows "fst (fst (Merge InfoToObjMeta cic localInv D c))
           = (if SetEquals D S then [] else SetDiff S D)"
  by (simp add: Merge_found [OF assms] split: option.splits prod.splits)

lemma GetClusterObjs_single:
  assumes "lookup InfoToObjMeta cic localInv c = Some (q, [a])"
  shows "GetClusterObjs InfoToObjMeta cic localInv c
           = (Load (WrapInventoryObj (Some a)), log q c)"
  using getClusterInventoryInfo_found [OF assms] by (simp add: GetClusterObjs_def)

text \<open>
  C2, as the code has it: from a store with unique keys whose objects are stored under the
  resource type of their kind, whenever Merge with dry-run off returns without error,
  Merge with dry-run on returns without error and with the same prune set from the same
  starting state, and leaves the objects of the store and its log of writes as they were.
\<close>

theorem dry_run_agrees_with_live_success:
  assumes d: "distinct (map key (objects c))"
    and sr: "\<forall>m\<in>set (objects c). sameResource InfoToObjMeta cic m"
    and liveRun: "Merge InfoToObjMeta (SetDryRun False cic) localInv D c = ((p, None), c')"
  shows "fst (Merge InfoToObjMeta (SetDryRun True cic) localInv D c) = (p, None)
       \<and> objects (snd (Merge InfoToObjMeta (SetDryRun True cic) localInv D c)) = objects c
       \<and> writes (snd (Merge InfoToObjMeta (SetDryRun True cic) localInv D c)) = writes c"
proof -
  let ?L = "SetDryRun False cic" and ?T = "SetDryRun True cic"
  from liveRun have ok: "snd (fst (Merge InfoToObjMeta ?L localInv D c)) = None"
    and p: "fst (fst (Merge InfoToObjMeta ?L localInv D c)) = p"
    by simp_all
  have live: "\<not> dryRun ?L" and dry: "dryRun ?T" by (simp_all add: SetDryRun_simps)
  from sr have srL: "\<forall>m\<in>set (objects c). sameResource InfoToObjMeta ?L m"
    by (simp add: SetDryRun_simps)
  obtain q infos where lk: "lookup InfoToObjMeta cic localInv c = Some (q, infos)"
    using Merge_lookup_failed [of InfoToObjMeta ?L localInv c D] ok
    by (cases "lookup InfoToObjMeta cic localInv c") (auto simp: SetDryRun_simps)
  then have lkL: "lookup InfoToObjMeta ?L localInv c = Some (q, infos)"
    and lkT: "lookup InfoToObjMeta ?T localInv c = Some (q, infos)"
    by (simp_all add: SetDryRun_simps)
  from lookup_read [OF lk] have rd: "\<not> isWrite q" .
  consider (none) "infos = []" | (one) a where "infos = [a]" | (many) "length infos > 1"
    by (cases infos rule: list.exhaust; cases "tl infos") auto
  then show ?thesis
  proof cases
    case none
    from lk obtain li where li: "localInv = Some li" by (auto elim: lookupE)
    from none lkL li have "p = []"
      using p by (simp add: Merge_none split: prod.splits option.splits)
    moreover from none lkT li dry
    have "Merge InfoToObjMeta ?T localInv D c = (([], None), log q c)"
      by (simp add: Merge_none createInventoryObj_def)
    ultimately show ?thesis using rd by (simp add: log_simps writes_log)
  next
    case one
    show ?thesis
    proof (cases a rule: Load_cases)
      case (fails e)
      from one lkL have g: "getClusterInventoryInfo InfoToObjMeta ?L localInv c
          = ((Some a, None), log q c)"
        using getClusterInventoryInfo_found [of InfoToObjMeta ?L localInv c q infos] by simp
      from one lkL fails have "GetClusterObjs InfoToObjMeta ?L localInv (log q c)
          = (([], Some e), log q (log q c))"
        by (simp add: GetClusterObjs_single)
      from Merge_load_failed [OF g this, of D] ok show ?thesis by simp
    next
      case (loads S)
      from one lkL have g: "getClusterInventoryInfo InfoToObjMeta ?L localInv c
          = ((Some a, None), log q c)"
        using getClusterInventoryInfo_found [of InfoToObjMeta ?L localInv c q infos] by simp
      from one lkL loads have "GetClusterObjs InfoToObjMeta ?L localInv (log q c)
          = ((S, None), log q (log q c))"
        by (simp add: GetClusterObjs_single)
      from Merge_found_prune [OF g this, of D] p
      have pL: "p = (if SetEquals D S then [] else SetDiff S D)"
        by simp
      from one lkT loads dry
      have "Merge InfoToObjMeta ?T localInv D c
              = ((if SetEquals D S then [] else SetDiff S D, None), log q (log q c))"
        by (simp add: Merge_single)
      with pL rd show ?thesis by (simp add: log_simps writes_log)
    qed
  next
    case many
    let ?u = "mergedInfo infos"
    obtain ci eo c1 where g: "getClusterInventoryInfo InfoToObjMeta ?L localInv c = ((ci, eo), c1)"
      by (cases "getClusterInventoryInfo InfoToObjMeta ?L localInv c") auto
    with Merge_resolution_failed [of InfoToObjMeta ?L localInv c ci _ c1 D] ok
    have eo: "eo = None" by (cases eo) auto
    note r = resolution_live [OF lkL many live d srL g [unfolded eo]]
    from many have ne: "infos \<noteq> []" by auto
    have ld: "Load (WrapInventoryObj (Some ?u)) = (mergedObjs infos, None)"
      by (simp add: mergedInfo_def Load_written)
    from g eo r(1) have gL: "getClusterInventoryInfo InfoToObjMeta ?L localInv c
        = ((Some ?u, None), c1)"
      by simp
    from r(3) ld have "GetClusterObjs InfoToObjMeta ?L localInv c1
        = ((mergedObjs infos, None), log q c1)"
      by (simp add: GetClusterObjs_single)
    from Merge_found_prune [OF gL this, of D] p
    have pL: "p = (if SetEquals D (mergedObjs infos) then [] else SetDiff (mergedObjs infos) D)"
      by simp
    have gT: "getClusterInventoryInfo InfoToObjMeta ?T localInv c1'
        = ((Some ?u, None), log q c1')"
      if "objects c1' = objects c" "fault c1' = fault c" for c1'
    proof -
      from lkT lookup_cong [OF that, of InfoToObjMeta ?T localInv]
      have "lookup InfoToObjMeta ?T localInv c1' = Some (q, infos)"
        by simp
      from getClusterInventoryInfo_found [OF this] many
        mergeClusterInventory_dry_result [OF dry ne r(2), of InfoToObjMeta "log q c1'"]
      show ?thesis by simp
    qed
    from gT [of "log q c"] ld
    have "GetClusterObjs InfoToObjMeta ?T localInv (log q c)
        = ((mergedObjs infos, None), log q (log q c))"
      by (simp add: GetClusterObjs_def log_simps)
    from Merge_found [OF gT [of c] this, of D] dry
    have "Merge InfoToObjMeta ?T localInv D c
        = ((if SetEquals D (mergedObjs infos) then [] else SetDiff (mergedObjs infos) D, None),
           log q (log q c))"
      by simp
    with pL rd show ?thesis by (simp add: log_simps writes_log)
  qed
qed

theorem dry_run_agrees_with_live_success_witness:
  "distinct (map key (objects (exCluster twoAnchors noFault)))
   \<and> list_all (sameResource exInfoToObjMeta (exClient False))
        (objects (exCluster twoAnchors noFault))
   \<and> fst (Merge exInfoToObjMeta (SetDryRun False (exClient False)) exDesc [exObj ''c'']
             (exCluster twoAnchors noFault)) = ([exObj ''a'', exObj ''b''], None)
   \<and> fst (Merge exInfoToObjMeta (SetDryRun True (exClient False)) exDesc [exObj ''c'']
             (exCluster twoAnchors noFault)) = ([exObj ''a'', exObj ''b''], None)
   \<and> objects (snd (Merge exInfoToObjMeta (SetDryRun True (exClient False)) exDesc [exObj ''c'']
             (exCluster twoAnchors noFault))) = twoAnchors"
proof -
  let ?c = "exCluster twoAnchors noFault"
  let ?L = "Merge exInfoToObjMeta (SetDryRun False (exClient False)) exDesc [exObj ''c''] ?c"
  have d: "distinct (map key (objects ?c))"
    by code_simp
  have sr: "\<forall>m\<in>set (objects ?c). sameResource exInfoToObjMeta (exClient False) m"
    by code_simp
  have l: "fst ?L = ([exObj ''a'', exObj ''b''], None)"
    by code_simp
  then have run: "?L = (([exObj ''a'', exObj ''b''], None), snd ?L)"
    by (metis prod.collapse)
  have objs: "objects ?c = twoAnchors"
    by (simp add: exCluster_def)
  from dry_run_agrees_with_live_success [OF d sr run] d sr l objs show ?thesis
    by (simp add: list_all_iff)
qed

text \<open>
  C2 as stated fails: on a store that rejects writes and holds two anchors, the run with
  dry-run off returns an error and an empty prune set, the run with dry-run on returns
  success and the prune set {a, b}.
\<close>

theorem dry_run_differs_when_store_rejects:
  "fst (Merge exInfoToObjMeta (SetDryRun False (exClient False)) exDesc [exObj ''c'']
          (exCluster twoAnchors readOnly)) = ([], Some (External ''forbidden''))
   \<and> fst (Merge exInfoToObjMeta (SetDryRun True (exClient False)) exDesc [exObj ''c'']
          (exCluster twoAnchors readOnly)) = ([exObj ''a'', exObj ''b''], None)"
proof
  show "fst (Merge exInfoToObjMeta (SetDryRun False (exClient False)) exDesc [exObj ''c'']
          (exCluster twoAnchors readOnly)) = ([], Some (External ''forbidden''))"
    by code_simp
  show "fst (Merge exInfoToObjMeta (SetDryRun True (exClient False)) exDesc [exObj ''c'']
          (exCluster twoAnchors readOnly)) = ([exObj ''a'', exObj ''b''], None)"
    by code_simp
qed

end
